theory Spec2Isabelle
  imports Main "HOL-Library.Word"
begin

unbundle bit_operations_syntax

section \<open>Data model\<close>

text \<open>
  The storage types that \<^verbatim>\<open>rbind.cc\<close> distinguishes. The file names \<^verbatim>\<open>VOID\<close>,
  \<^verbatim>\<open>STR32\<close>, \<^verbatim>\<open>STR64\<close> and \<^verbatim>\<open>OBJ\<close>; the fixed-width types are those its
  template instantiations serve (bool and the integers, the two floats).
\<close>

datatype SType = VOID | BOOL | INT8 | INT16 | INT32 | INT64 | FLOAT32 | FLOAT64
  | STR32 | STR64 | OBJ

datatype LType = MU | BOOLEAN | INTEGER | REAL | STRING | OBJECT

fun ltype_of :: "SType \<Rightarrow> LType" where
  "ltype_of VOID = MU"
| "ltype_of BOOL = BOOLEAN"
| "ltype_of INT8 = INTEGER"
| "ltype_of INT16 = INTEGER"
| "ltype_of INT32 = INTEGER"
| "ltype_of INT64 = INTEGER"
| "ltype_of FLOAT32 = REAL"
| "ltype_of FLOAT64 = REAL"
| "ltype_of STR32 = STRING"
| "ltype_of STR64 = STRING"
| "ltype_of OBJ = OBJECT"

text \<open>
  Every \<^verbatim>\<open>throw\<close> of the file is a constructor: the \<^verbatim>\<open>TypeError\<close> of
  \<^verbatim>\<open>process_arg\<close> (with the item counter \<^verbatim>\<open>j\<close>), the three \<^verbatim>\<open>ValueError\<close>s of
  \<^verbatim>\<open>Frame::rbind\<close> and \<^verbatim>\<open>_check_ncols\<close> (\<^verbatim>\<open>SchemaMismatch n1 n0\<close>: a frame with
  \<^verbatim>\<open>n1\<close> columns to a frame with \<^verbatim>\<open>n0\<close> columns), and the \<^verbatim>\<open>TypeError\<close> of
  \<^verbatim>\<open>Column::rbind\<close> (the appended column's type, then the accumulated type).
\<close>

datatype error =
    InvalidArgument nat
  | KeyedFrame
  | SchemaMismatch nat nat
  | UnknownColumn string
  | TypeConflict SType SType

type_synonym byte = "8 word"

text \<open>
  A materialized column: its implementation class, the row count \<^verbatim>\<open>nrows_\<close> and its
  buffers. A fixed-width buffer \<^verbatim>\<open>mbuf_\<close> is a list of slots of an abstract type
  \<^typ>\<open>'a\<close> (the template parameter \<^verbatim>\<open>T\<close>; an object column holds \<^verbatim>\<open>PyObject*\<close> in
  the same kind of slot). A string column has the offsets \<^verbatim>\<open>offbuf_\<close>
  (\<^verbatim>\<open>nrows_ + 1\<close> entries of 32 or 64 bits) and the bytes \<^verbatim>\<open>strbuf_\<close>.
\<close>

datatype 'a Column =
    ConstNa_ColumnImpl nat
  | SentinelFw_ColumnImpl SType nat "'a list"
  | SentinelStr32_ColumnImpl nat "32 word list" "byte list"
  | SentinelStr64_ColumnImpl nat "64 word list" "byte list"
  | SentinelObj_ColumnImpl nat "'a list"

fun nrows :: "'a Column \<Rightarrow> nat" where
  "nrows (ConstNa_ColumnImpl n) = n"
| "nrows (SentinelFw_ColumnImpl st n mbuf) = n"
| "nrows (SentinelStr32_ColumnImpl n offbuf strbuf) = n"
| "nrows (SentinelStr64_ColumnImpl n offbuf strbuf) = n"
| "nrows (SentinelObj_ColumnImpl n mbuf) = n"

fun stype :: "'a Column \<Rightarrow> SType" where
  "stype (ConstNa_ColumnImpl n) = VOID"
| "stype (SentinelFw_ColumnImpl st n mbuf) = st"
| "stype (SentinelStr32_ColumnImpl n offbuf strbuf) = STR32"
| "stype (SentinelStr64_ColumnImpl n offbuf strbuf) = STR64"
| "stype (SentinelObj_ColumnImpl n mbuf) = OBJ"

definition ltype :: "'a Column \<Rightarrow> LType" where
  "ltype col = ltype_of (stype col)"

text \<open>\<^verbatim>\<open>get_data_readonly(0)\<close> of a fixed-width or object column: the slots.\<close>

fun get_data_readonly :: "'a Column \<Rightarrow> 'a list" where
  "get_data_readonly (SentinelFw_ColumnImpl st n mbuf) = mbuf"
| "get_data_readonly (SentinelObj_ColumnImpl n mbuf) = mbuf"
| "get_data_readonly col = []"

text \<open>\<^verbatim>\<open>get_data_readonly(1)\<close> of a string column, whose length is \<^verbatim>\<open>get_data_size(1)\<close>.\<close>

fun get_strdata :: "'a Column \<Rightarrow> byte list" where
  "get_strdata (SentinelStr32_ColumnImpl n offbuf strbuf) = strbuf"
| "get_strdata (SentinelStr64_ColumnImpl n offbuf strbuf) = strbuf"
| "get_strdata col = []"

text \<open>
  The fields \<^verbatim>\<open>nrows_\<close>, \<^verbatim>\<open>ncols_\<close>, \<^verbatim>\<open>nkeys_\<close>, \<^verbatim>\<open>columns_\<close> and \<^verbatim>\<open>names_\<close> of a
  \<^verbatim>\<open>DataTable\<close>.
\<close>

record 'a DataTable =
  dt_nrows :: nat
  dt_ncols :: nat
  dt_nkeys :: nat
  dt_columns :: "'a Column list"
  dt_names :: "string list"

text \<open>
  The Python arguments of \<^verbatim>\<open>Frame.rbind\<close>: a frame, an iterable that is not a string,
  or anything else.
\<close>

datatype 'a robj = PyFrame "'a DataTable" | PyIter "'a robj list" | PyOther

section \<open>What the file uses and does not define\<close>

text \<open>
  The sentinel \<^verbatim>\<open>GETNA<T>()\<close> of each fixed-width type, Python's \<^verbatim>\<open>None\<close>, the content
  of a slot that \<^verbatim>\<open>Buffer::resize\<close> adds to a fixed-width buffer (not initialized), and
  the type cast of a column (\<^verbatim>\<open>Column::cast\<close>, \<^verbatim>\<open>cast_inplace\<close> followed by
  \<^verbatim>\<open>materialize\<close>) are parameters of the model.
\<close>

record 'a extern =
  GETNA_fw :: "SType \<Rightarrow> 'a"
  Py_None :: 'a
  uninit :: 'a
  cast_inplace :: "SType \<Rightarrow> 'a Column \<Rightarrow> 'a Column"

text \<open>
  Modelled from the spec: \<^verbatim>\<open>Column::MAX_ARR32_SIZE\<close>, ``the 32-bit offset limit'': the
  largest offset that leaves the high bit, the NA tag of a 32-bit offset, free.
\<close>

definition MAX_ARR32_SIZE :: nat where
  "MAX_ARR32_SIZE = 2147483647"

text \<open>
  Modelled from the spec: \<^verbatim>\<open>GETNA<uint32_t>()\<close>, \<^verbatim>\<open>GETNA<uint64_t>()\<close> and \<^verbatim>\<open>ISNA\<close> of an
  offset: ``a missing string is encoded by setting a dedicated high bit on its
  end-offset''.
\<close>

definition GETNA_str :: "'w::len word" where
  "GETNA_str = push_bit (LENGTH('w) - 1) 1"

definition ISNA_str :: "'w::len word \<Rightarrow> bool" where
  "ISNA_str x = (x AND GETNA_str \<noteq> 0)"

text \<open>
  Modelled from the spec: \<^verbatim>\<open>dt::Type::common\<close> (section 4.4). \<^verbatim>\<open>void\<close> is the identity,
  \<^verbatim>\<open>common(X, X) = X\<close>, the chain \<^verbatim>\<open>bool < int8 < int16 < int32 < int64 < float32 < float64\<close>
  promotes to the larger type, a string is compatible with a string (the wider offsets
  win) and with \<^verbatim>\<open>object\<close>, and nothing else has a common type (\<^const>\<open>None\<close> is the
  invalid type).
\<close>

fun numeric_rank :: "SType \<Rightarrow> nat option" where
  "numeric_rank BOOL = Some 1"
| "numeric_rank INT8 = Some 2"
| "numeric_rank INT16 = Some 3"
| "numeric_rank INT32 = Some 4"
| "numeric_rank INT64 = Some 5"
| "numeric_rank FLOAT32 = Some 6"
| "numeric_rank FLOAT64 = Some 7"
| "numeric_rank st = None"

definition Type_common :: "SType \<Rightarrow> SType \<Rightarrow> SType option" where
  "Type_common a b =
    (if a = VOID then Some b
     else if b = VOID then Some a
     else if a = b then Some a
     else (case (numeric_rank a, numeric_rank b) of
         (Some i, Some j) \<Rightarrow> Some (if i < j then b else a)
       | _ \<Rightarrow>
         if ltype_of a = STRING \<and> ltype_of b = STRING then Some STR64
         else if (ltype_of a = STRING \<and> b = OBJ) \<or> (a = OBJ \<and> ltype_of b = STRING)
           then Some OBJ
         else None))"

text \<open>
  Modelled from the spec: \<^verbatim>\<open>Column::new_na_column(n, stype)\<close> followed by
  \<^verbatim>\<open>materialize()\<close>, ``a fresh Constant-NA buffer sized to the target's row count'':
  \<^verbatim>\<open>n\<close> missing values in the representation of the type.
\<close>

fun new_na_column :: "'a extern \<Rightarrow> nat \<Rightarrow> SType \<Rightarrow> 'a Column" where
  "new_na_column E n VOID = ConstNa_ColumnImpl n"
| "new_na_column E n STR32 =
     SentinelStr32_ColumnImpl n (0 # replicate n GETNA_str) []"
| "new_na_column E n STR64 =
     SentinelStr64_ColumnImpl n (0 # replicate n GETNA_str) []"
| "new_na_column E n OBJ = SentinelObj_ColumnImpl n (replicate n (Py_None E))"
| "new_na_column E n st = SentinelFw_ColumnImpl st n (replicate n (GETNA_fw E st))"

text \<open>
  Buffers are lists of slots. \<^verbatim>\<open>Buffer::resize\<close> keeps the common prefix and adds slots
  (\<^term>\<open>fill\<close>: what a new slot holds); \<^verbatim>\<open>memcpy\<close>, \<^verbatim>\<open>std::fill\<close> and \<^verbatim>\<open>set_value\<close>
  write a run of slots at a position. A write beyond the end is undefined in C++; here
  it lengthens the list, and the theorems below show that the writes stay in range.
\<close>

definition resize_buf :: "'b \<Rightarrow> 'b list \<Rightarrow> nat \<Rightarrow> 'b list" where
  "resize_buf fill buf n = take n buf @ replicate (n - length buf) fill"

definition write_buf :: "'b list \<Rightarrow> nat \<Rightarrow> 'b list \<Rightarrow> 'b list" where
  "write_buf buf pos data = take pos buf @ data @ drop (pos + length data) buf"

section \<open>The storage appenders\<close>

subsection \<open>VOID columns\<close>

text \<open>\<^verbatim>\<open>ConstNa_ColumnImpl::rbind_impl\<close>: only the row count changes.\<close>

definition ConstNa_rbind_impl :: "nat \<Rightarrow> 'a Column list \<Rightarrow> nat \<Rightarrow> nat" where
  "ConstNa_rbind_impl nrows0 columns new_nrows = new_nrows"

subsection \<open>Fixed-width columns\<close>

text \<open>
  One iteration of the copy loop of \<^verbatim>\<open>SentinelFw_ColumnImpl<T>::rbind_impl\<close>. The state
  is the buffer, the write position \<^verbatim>\<open>resptr\<close> (in slots) and \<^verbatim>\<open>rows_to_fill\<close>; the
  column comes back as the loop leaves it (cast in place when its type differs).
\<close>

definition fw_step ::
  "'a extern \<Rightarrow> SType \<Rightarrow> 'a Column \<Rightarrow> 'a list \<times> nat \<times> nat \<Rightarrow> 'a Column \<times> 'a list \<times> nat \<times> nat" where
  "fw_step E st col s =
    (case s of (mbuf, resptr, rows_to_fill) \<Rightarrow>
      if stype col = VOID then (col, mbuf, resptr, rows_to_fill + nrows col)
      else
        let (mbuf1, resptr1) =
              (if rows_to_fill \<noteq> 0
               then (write_buf mbuf resptr (replicate rows_to_fill (GETNA_fw E st)),
                     resptr + rows_to_fill)
               else (mbuf, resptr));
            col1 = (if stype col \<noteq> st then cast_inplace E st col else col);
            col_data_size = nrows col1
        in if col_data_size \<noteq> 0
           then (col1, write_buf mbuf1 resptr1 (take col_data_size (get_data_readonly col1)),
                 resptr1 + col_data_size, 0)
           else (col1, mbuf1, resptr1, 0))"

fun fw_loop ::
  "'a extern \<Rightarrow> SType \<Rightarrow> 'a Column list \<Rightarrow> 'a list \<times> nat \<times> nat \<Rightarrow> 'a Column list \<times> 'a list \<times> nat \<times> nat" where
  "fw_loop E st [] s = ([], s)"
| "fw_loop E st (col # rest) s =
    (case fw_step E st col s of (col1, s1) \<Rightarrow>
      (case fw_loop E st rest s1 of (rest1, s2) \<Rightarrow> (col1 # rest1, s2)))"

text \<open>
  \<^verbatim>\<open>SentinelFw_ColumnImpl<T>::rbind_impl\<close>, on \<^verbatim>\<open>nrows_\<close> and \<^verbatim>\<open>mbuf_\<close>: the columns as the
  call leaves them, the new buffer, and the final \<^verbatim>\<open>resptr\<close>, which the closing
  \<^verbatim>\<open>xassert\<close> compares with the end of the buffer.
\<close>

definition SentinelFw_rbind_impl ::
  "'a extern \<Rightarrow> SType \<Rightarrow> nat \<Rightarrow> 'a list \<Rightarrow> 'a Column list \<Rightarrow> nat \<Rightarrow> bool
    \<Rightarrow> 'a Column list \<times> 'a list \<times> nat" where
  "SentinelFw_rbind_impl E st nrows0 mbuf0 columns new_nrows col_empty =
    (let old_nrows = nrows0;
         mbuf = resize_buf (uninit E) mbuf0 new_nrows;
         s0 = (if col_empty then (mbuf, 0, old_nrows) else (mbuf, old_nrows, 0))
     in case fw_loop E st columns s0 of (columns1, mbuf1, resptr, rows_to_fill) \<Rightarrow>
          if rows_to_fill \<noteq> 0
          then (columns1, write_buf mbuf1 resptr (replicate rows_to_fill (GETNA_fw E st)),
                resptr + rows_to_fill)
          else (columns1, mbuf1, resptr))"

subsection \<open>Object columns\<close>

text \<open>
  Modelled from the spec: \<^verbatim>\<open>get_element\<close> of a column cast to the object type, ``for
  each row, fetch its value'' with its validity; a slot holding \<^verbatim>\<open>None\<close> is invalid.
\<close>

definition get_element_obj :: "'a extern \<Rightarrow> 'a Column \<Rightarrow> nat \<Rightarrow> bool \<times> 'a" where
  "get_element_obj E col i =
    (let x = get_data_readonly col ! i in (x \<noteq> Py_None E, x))"

definition obj_step ::
  "'a extern \<Rightarrow> 'a Column \<Rightarrow> 'a list \<times> nat \<Rightarrow> 'a Column \<times> 'a list \<times> nat" where
  "obj_step E col s =
    (case s of (mbuf, dest_data) \<Rightarrow>
      if stype col = VOID then (col, mbuf, dest_data + nrows col)
      else
        let col1 = cast_inplace E OBJ col;
            vals = map (\<lambda>i. case get_element_obj E col1 i of (isvalid, dd) \<Rightarrow>
                              if \<not> isvalid then Py_None E else dd) [0 ..< nrows col1]
        in (col1, write_buf mbuf dest_data vals, dest_data + nrows col1))"

fun obj_loop ::
  "'a extern \<Rightarrow> 'a Column list \<Rightarrow> 'a list \<times> nat \<Rightarrow> 'a Column list \<times> 'a list \<times> nat" where
  "obj_loop E [] s = ([], s)"
| "obj_loop E (col # rest) s =
    (case obj_step E col s of (col1, s1) \<Rightarrow>
      (case obj_loop E rest s1 of (rest1, s2) \<Rightarrow> (col1 # rest1, s2)))"

text \<open>
  \<^verbatim>\<open>SentinelObj_ColumnImpl::rbind_impl\<close>: \<^verbatim>\<open>resize\<close> fills the new slots with \<^verbatim>\<open>None\<close>
  (the comment of the source), and \<^verbatim>\<open>dest_data\<close> starts after the old rows only when
  the column is not empty. The final \<^verbatim>\<open>dest_data\<close> is what the closing \<^verbatim>\<open>xassert\<close>
  compares with the end of the buffer.
\<close>

definition SentinelObj_rbind_impl ::
  "'a extern \<Rightarrow> nat \<Rightarrow> 'a list \<Rightarrow> 'a Column list \<Rightarrow> nat \<Rightarrow> bool
    \<Rightarrow> 'a Column list \<times> 'a list \<times> nat" where
  "SentinelObj_rbind_impl E nrows0 mbuf0 columns nnrows col_empty =
    (let old_nrows = nrows0;
         new_nrows = nnrows;
         mbuf = resize_buf (Py_None E) mbuf0 new_nrows;
         dest_data = (if \<not> col_empty then old_nrows else 0)
     in obj_loop E columns (mbuf, dest_data))"

subsection \<open>String columns\<close>

text \<open>
  The first loop of \<^verbatim>\<open>SentinelStr_ColumnImpl<T>::rbind_impl\<close>: the size of the string
  data, with the columns that are not strings cast in place to the type of this
  column.
\<close>

fun str_size_loop ::
  "'a extern \<Rightarrow> SType \<Rightarrow> 'a Column list \<Rightarrow> nat \<Rightarrow> 'a Column list \<times> nat" where
  "str_size_loop E st [] new_strbuf_size = ([], new_strbuf_size)"
| "str_size_loop E st (col # rest) new_strbuf_size =
    (if stype col = VOID then
       (case str_size_loop E st rest new_strbuf_size of (rest1, sz) \<Rightarrow> (col # rest1, sz))
     else
       let col1 = (if ltype col \<noteq> STRING then cast_inplace E st col else col)
       in case str_size_loop E st rest (new_strbuf_size + length (get_strdata col1)) of
            (rest1, sz) \<Rightarrow> (col1 # rest1, sz))"

text \<open>
  \<^verbatim>\<open>delta_na\<close>: the difference of the two NA tags, computed in 64 bits and cast to
  \<^verbatim>\<open>T\<close>.
\<close>

definition delta_na :: "'w::len word" where
  "delta_na = ucast ((GETNA_str :: 64 word) - ucast (GETNA_str :: 32 word))"

text \<open>
  The offsets of one appended string column in the width \<^verbatim>\<open>T\<close> of this column, rows
  \<^verbatim>\<open>0 .. nrows - 1\<close> of \<^verbatim>\<open>col_offsets\<close> (the offset buffer from its second entry on). The
  source asserts that a column that is not \<^verbatim>\<open>STR32\<close> is \<^verbatim>\<open>STR64\<close>; any other column
  contributes no offsets here.
\<close>

fun translated_offsets :: "'a Column \<Rightarrow> 'w::len word \<Rightarrow> 'w word list" where
  "translated_offsets (SentinelStr32_ColumnImpl n offbuf strbuf) curr_offset =
     map (\<lambda>offset. ucast offset + curr_offset +
                    (if LENGTH('w) = 64 \<and> ISNA_str offset then delta_na else 0))
         (take n (drop 1 offbuf))"
| "translated_offsets (SentinelStr64_ColumnImpl n offbuf strbuf) curr_offset =
     map (\<lambda>offset. ucast offset + curr_offset -
                    (if LENGTH('w) = 32 \<and> ISNA_str offset then delta_na else 0))
         (take n (drop 1 offbuf))"
| "translated_offsets col curr_offset = []"

text \<open>
  One iteration of the second loop. The state: the offset buffer, the position \<^verbatim>\<open>offs\<close>
  in it (in entries, from the start of the buffer), \<^verbatim>\<open>rows_to_fill\<close>, \<^verbatim>\<open>curr_offset\<close>
  and the string buffer.
\<close>

definition str_step ::
  "'a Column \<Rightarrow> 'w::len word list \<times> nat \<times> nat \<times> 'w word \<times> byte list
    \<Rightarrow> 'w word list \<times> nat \<times> nat \<times> 'w word \<times> byte list" where
  "str_step col s =
    (case s of (offbuf, offs, rows_to_fill, curr_offset, strbuf) \<Rightarrow>
      if stype col = VOID then (offbuf, offs, rows_to_fill + nrows col, curr_offset, strbuf)
      else
        let (offbuf1, offs1) =
              (if rows_to_fill \<noteq> 0
               then (write_buf offbuf offs (replicate rows_to_fill (curr_offset XOR GETNA_str)),
                     offs + rows_to_fill)
               else (offbuf, offs));
            offbuf2 = write_buf offbuf1 offs1 (translated_offsets col curr_offset);
            offs2 = offs1 + nrows col;
            col_strdata = get_strdata col;
            col_strsize = length col_strdata
        in if col_strsize \<noteq> 0
           then (offbuf2, offs2, 0, curr_offset + of_nat col_strsize,
                 write_buf strbuf (unat curr_offset) col_strdata)
           else (offbuf2, offs2, 0, curr_offset, strbuf))"

fun str_loop ::
  "'a Column list \<Rightarrow> 'w::len word list \<times> nat \<times> nat \<times> 'w word \<times> byte list
    \<Rightarrow> 'w word list \<times> nat \<times> nat \<times> 'w word \<times> byte list" where
  "str_loop [] s = s"
| "str_loop (col # rest) s = str_loop rest (str_step col s)"

text \<open>
  \<^verbatim>\<open>SentinelStr_ColumnImpl<T>::rbind_impl\<close> for the offset type \<^verbatim>\<open>'w word\<close>, on the
  fields \<^verbatim>\<open>nrows_\<close>, \<^verbatim>\<open>offbuf_\<close> and \<^verbatim>\<open>strbuf_\<close>. First the part after the early return:
  the buffers are resized, \<^verbatim>\<open>offs[-1] = 0\<close>, the second loop runs, and the rows left to
  fill are written. \<^verbatim>\<open>offs\<close> counts from the start of the buffer, so \<^verbatim>\<open>offs[old_nrows - 1]\<close>
  is entry \<^verbatim>\<open>old_nrows\<close>.
\<close>

definition str_append ::
  "nat \<Rightarrow> 'w::len word list \<Rightarrow> byte list \<Rightarrow> 'a Column list \<Rightarrow> nat \<Rightarrow> nat \<Rightarrow> bool
    \<Rightarrow> nat \<times> 'w word list \<times> byte list" where
  "str_append nrows0 offbuf0 strbuf0 columns1 new_strbuf_size new_nrows col_empty =
    (let old_nrows = nrows0;
         offbuf = (resize_buf 0 offbuf0 (new_nrows + 1))[0 := 0];
         strbuf = resize_buf 0 strbuf0 new_strbuf_size;
         s0 = (if col_empty then (offbuf, 1, old_nrows, 0, strbuf)
               else (offbuf, 1 + old_nrows, 0, (offbuf ! old_nrows) AND NOT GETNA_str, strbuf))
     in case str_loop columns1 s0 of
          (offbuf1, offs, rows_to_fill, curr_offset, strbuf1) \<Rightarrow>
            (new_nrows,
             (if rows_to_fill \<noteq> 0
              then write_buf offbuf1 offs (replicate rows_to_fill (curr_offset XOR GETNA_str))
              else offbuf1),
             strbuf1))"

text \<open>
  The whole function (\<^verbatim>\<open>sizeof(T) == 4\<close> is \<^verbatim>\<open>LENGTH('w) = 32\<close>). It returns the columns
  as the call leaves them, the in-out parameter \<^verbatim>\<open>new_stype\<close> and the three fields. The
  early return leaves the fields as they were.
\<close>

definition SentinelStr_rbind_impl ::
  "'a extern \<Rightarrow> SType \<Rightarrow> nat \<Rightarrow> 'w::len word list \<Rightarrow> byte list \<Rightarrow> 'a Column list \<Rightarrow> nat
    \<Rightarrow> bool \<Rightarrow> SType \<Rightarrow> 'a Column list \<times> SType \<times> nat \<times> 'w word list \<times> byte list" where
  "SentinelStr_rbind_impl E st nrows0 offbuf0 strbuf0 columns new_nrows col_empty new_stype =
    (case str_size_loop E st columns (if \<not> col_empty then length strbuf0 else 0) of
       (columns1, new_strbuf_size) \<Rightarrow>
         if LENGTH('w) = 32 \<and>
            (new_strbuf_size > MAX_ARR32_SIZE \<or> new_nrows > MAX_ARR32_SIZE)
         then (columns1, STR64, nrows0, offbuf0, strbuf0)
         else (columns1, new_stype,
               str_append nrows0 offbuf0 strbuf0 columns1 new_strbuf_size new_nrows col_empty))"

subsection \<open>The virtual call\<close>

text \<open>
  \<^verbatim>\<open>rbind_impl\<close> as \<^verbatim>\<open>Column::rbind\<close> calls it: the implementation class of the column
  selects the appender. The result is the list of columns as the call leaves it, the
  in-out parameter \<^verbatim>\<open>new_stype\<close>, and the column.
\<close>

fun rbind_impl ::
  "'a extern \<Rightarrow> 'a Column \<Rightarrow> 'a Column list \<Rightarrow> nat \<Rightarrow> bool \<Rightarrow> SType
    \<Rightarrow> 'a Column list \<times> SType \<times> 'a Column" where
  "rbind_impl E (ConstNa_ColumnImpl n) columns new_nrows col_empty new_stype =
     (columns, new_stype, ConstNa_ColumnImpl (ConstNa_rbind_impl n columns new_nrows))"
| "rbind_impl E (SentinelFw_ColumnImpl st n mbuf) columns new_nrows col_empty new_stype =
     (case SentinelFw_rbind_impl E st n mbuf columns new_nrows col_empty of
        (columns1, mbuf1, resptr) \<Rightarrow>
          (columns1, new_stype, SentinelFw_ColumnImpl st new_nrows mbuf1))"
| "rbind_impl E (SentinelStr32_ColumnImpl n offbuf strbuf) columns new_nrows col_empty new_stype =
     (case SentinelStr_rbind_impl E STR32 n offbuf strbuf columns new_nrows col_empty new_stype of
        (columns1, new_stype1, n1, offbuf1, strbuf1) \<Rightarrow>
          (columns1, new_stype1, SentinelStr32_ColumnImpl n1 offbuf1 strbuf1))"
| "rbind_impl E (SentinelStr64_ColumnImpl n offbuf strbuf) columns new_nrows col_empty new_stype =
     (case SentinelStr_rbind_impl E STR64 n offbuf strbuf columns new_nrows col_empty new_stype of
        (columns1, new_stype1, n1, offbuf1, strbuf1) \<Rightarrow>
          (columns1, new_stype1, SentinelStr64_ColumnImpl n1 offbuf1 strbuf1))"
| "rbind_impl E (SentinelObj_ColumnImpl n mbuf) columns new_nrows col_empty new_stype =
     (case SentinelObj_rbind_impl E n mbuf columns new_nrows col_empty of
        (columns1, mbuf1, dest_data) \<Rightarrow>
          (columns1, new_stype, SentinelObj_ColumnImpl new_nrows mbuf1))"

section \<open>Column::rbind\<close>

text \<open>
  The loop that computes the final number of rows and the final type: the common type
  of the accumulated type and the type of each column, in order; an invalid common
  type throws.
\<close>

fun common_type_loop :: "'a Column list \<Rightarrow> nat \<times> SType \<Rightarrow> error + nat \<times> SType" where
  "common_type_loop [] s = Inr s"
| "common_type_loop (col # rest) s =
    (case s of (new_nrows, new_type) \<Rightarrow>
      (case Type_common new_type (stype col) of
         None \<Rightarrow> Inl (TypeConflict (stype col) new_type)
       | Some next_type \<Rightarrow> common_type_loop rest (new_nrows + nrows col, next_type)))"

text \<open>
  The column \<^verbatim>\<open>newcol\<close> that the append starts from: fresh and filled with NAs when the
  column is empty, the column itself, or its cast.
\<close>

definition rbind_newcol :: "'a extern \<Rightarrow> 'a Column \<Rightarrow> SType \<Rightarrow> 'a Column" where
  "rbind_newcol E this new_stype =
    (if stype this = VOID then new_na_column E (nrows this) new_stype
     else if stype this = new_stype then this
     else cast_inplace E new_stype this)"

text \<open>
  The calls of \<^verbatim>\<open>rbind_impl\<close>: \<^verbatim>\<open>new_stype\<close> is reset to \<^verbatim>\<open>VOID\<close>, and when the first
  call changes it, the column is cast to that type and the call is made again, on the
  columns as the first call left them.
\<close>

definition rbind_append ::
  "'a extern \<Rightarrow> 'a Column \<Rightarrow> 'a Column list \<Rightarrow> nat \<Rightarrow> bool \<Rightarrow> 'a Column" where
  "rbind_append E newcol columns new_nrows col_empty =
    (case rbind_impl E newcol columns new_nrows col_empty VOID of
       (columns1, new_stype, newcol1) \<Rightarrow>
         if new_stype \<noteq> VOID
         then (case rbind_impl E (cast_inplace E new_stype newcol1) columns1 new_nrows
                      col_empty new_stype of
                 (columns2, new_stype2, newcol2) \<Rightarrow> newcol2)
         else newcol1)"

definition Column_rbind :: "'a extern \<Rightarrow> 'a Column \<Rightarrow> 'a Column list \<Rightarrow> error + 'a Column" where
  "Column_rbind E this columns =
    (let col_empty = (stype this = VOID) in
     case common_type_loop columns (nrows this, stype this) of
       Inl e \<Rightarrow> Inl e
     | Inr (new_nrows, new_stype) \<Rightarrow>
         Inr (rbind_append E (rbind_newcol E this new_stype) columns new_nrows col_empty))"

section \<open>DataTable::rbind\<close>

text \<open>\<^verbatim>\<open>size_t(-1)\<close>, which is \<^verbatim>\<open>2^64 - 1\<close>.\<close>

definition INVALID_INDEX :: nat where
  "INVALID_INDEX = 18446744073709551615"

text \<open>The columns to append to column \<^verbatim>\<open>i\<close>: one of each frame, or a column of NAs.\<close>

definition cols_to_append :: "'a DataTable list \<Rightarrow> nat list \<Rightarrow> 'a Column list" where
  "cols_to_append dts row =
    map (\<lambda>j. let k = row ! j in
              if k = INVALID_INDEX then ConstNa_ColumnImpl (dt_nrows (dts ! j))
              else dt_columns (dts ! j) ! k)
        [0 ..< length dts]"

text \<open>
  The loop over the columns. A \<^verbatim>\<open>TypeError\<close> of \<^verbatim>\<open>Column::rbind\<close> leaves the loop with
  the columns before it already replaced.
\<close>

fun rbind_columns ::
  "'a extern \<Rightarrow> 'a DataTable list \<Rightarrow> nat list list \<Rightarrow> nat list \<Rightarrow> 'a Column list
    \<Rightarrow> error option \<times> 'a Column list" where
  "rbind_columns E dts col_indices [] columns = (None, columns)"
| "rbind_columns E dts col_indices (i # rest) columns =
    (case Column_rbind E (columns ! i) (cols_to_append dts (col_indices ! i)) of
       Inl e \<Rightarrow> (Some e, columns)
     | Inr col \<Rightarrow> rbind_columns E dts col_indices rest (columns[i := col]))"

text \<open>
  \<^verbatim>\<open>DataTable::rbind\<close>: the outcome and the table as the call leaves it. \<^verbatim>\<open>ncols_\<close> and
  \<^verbatim>\<open>nrows_\<close> are assigned last, so an exception leaves them as they were.
\<close>

definition DataTable_rbind ::
  "'a extern \<Rightarrow> 'a DataTable \<Rightarrow> 'a DataTable list \<Rightarrow> nat list list
    \<Rightarrow> error option \<times> 'a DataTable" where
  "DataTable_rbind E dt dts col_indices =
    (let new_ncols = length col_indices;
         columns0 = dt_columns dt @
           replicate (new_ncols - dt_ncols dt) (ConstNa_ColumnImpl (dt_nrows dt));
         new_nrows = foldl (\<lambda>n d. n + dt_nrows d) (dt_nrows dt) dts
     in case rbind_columns E dts col_indices [0 ..< new_ncols] columns0 of
          (Some e, columns1) \<Rightarrow> (Some e, dt\<lparr>dt_columns := columns1\<rparr>)
        | (None, columns1) \<Rightarrow>
            (None, dt\<lparr>dt_columns := columns1, dt_ncols := new_ncols, dt_nrows := new_nrows\<rparr>))"

section \<open>Frame::rbind\<close>

text \<open>
  \<^verbatim>\<open>process_arg\<close>: the frames with rows are collected in \<^verbatim>\<open>dts\<close>, \<^verbatim>\<open>j\<close> counts every
  frame, an iterable is entered while \<^verbatim>\<open>level < 2\<close>, anything else throws.
\<close>

fun process_arg ::
    "'a robj \<Rightarrow> nat \<Rightarrow> 'a DataTable list \<times> nat \<Rightarrow> error + 'a DataTable list \<times> nat"
  and process_items ::
    "'a robj list \<Rightarrow> nat \<Rightarrow> 'a DataTable list \<times> nat \<Rightarrow> error + 'a DataTable list \<times> nat" where
  "process_arg (PyFrame df) level s =
    (case s of (dts, j) \<Rightarrow> Inr (if dt_nrows df \<noteq> 0 then dts @ [df] else dts, j + 1))"
| "process_arg (PyIter items) level s =
    (if level < 2 then process_items items (level + 1) s
     else Inl (InvalidArgument (snd s)))"
| "process_arg PyOther level s = Inl (InvalidArgument (snd s))"
| "process_items [] level s = Inr s"
| "process_items (item # items) level s =
    (case process_arg item level s of
       Inl e \<Rightarrow> Inl e
     | Inr s1 \<Rightarrow> process_items items level s1)"

definition process_varargs :: "'a robj list \<Rightarrow> error + 'a DataTable list" where
  "process_varargs varargs =
    (case process_items varargs 0 ([], 0) of Inl e \<Rightarrow> Inl e | Inr (dts, j) \<Rightarrow> Inr dts)"

definition check_ncols :: "nat \<Rightarrow> nat \<Rightarrow> error + unit" where
  "check_ncols n0 n1 = (if n0 = n1 then Inr () else Inl (SchemaMismatch n1 n0))"

text \<open>
  The state of the planner: \<^verbatim>\<open>final_names\<close>, \<^verbatim>\<open>n\<close>, the matrix \<^verbatim>\<open>cols\<close> (one row per
  final column, one entry per frame) and, by names, the map \<^verbatim>\<open>inames\<close>.
\<close>

record plan =
  final_names :: "string list"
  n :: nat
  cols :: "nat list list"
  inames :: "string \<Rightarrow> nat option"

text \<open>\<^verbatim>\<open>inames[name] = i++\<close> over the names.\<close>

fun inames_init ::
  "string list \<Rightarrow> nat \<Rightarrow> (string \<Rightarrow> nat option) \<Rightarrow> (string \<Rightarrow> nat option)" where
  "inames_init [] i m = m"
| "inames_init (name # rest) i m = inames_init rest (i + 1) (m(name \<mapsto> i))"

text \<open>\<^verbatim>\<open>cols[r][i] = j\<close>.\<close>

definition set_col :: "nat list list \<Rightarrow> nat \<Rightarrow> nat \<Rightarrow> nat \<Rightarrow> nat list list" where
  "set_col cs r i j = cs[r := (cs ! r)[i := j]]"

text \<open>
  The loop over the names of frame \<^verbatim>\<open>i\<close>, by names; \<^verbatim>\<open>nd\<close> is \<^verbatim>\<open>dts.size()\<close>.
\<close>

fun match_names ::
  "bool \<Rightarrow> nat \<Rightarrow> nat \<Rightarrow> string list \<Rightarrow> nat \<Rightarrow> plan \<Rightarrow> error + plan" where
  "match_names force nd i [] j P = Inr P"
| "match_names force nd i (name # rest) j P =
    (if j < n P \<and> name = final_names P ! j then
       match_names force nd i rest (j + 1) (P\<lparr>cols := set_col (cols P) j i j\<rparr>)
     else if inames P name \<noteq> None then
       match_names force nd i rest (j + 1)
         (P\<lparr>cols := set_col (cols P) (the (inames P name)) i j\<rparr>)
     else if force then
       match_names force nd i rest (j + 1)
         (P\<lparr>final_names := final_names P @ [name],
            cols := set_col (cols P @ [replicate nd INVALID_INDEX]) (n P) i j,
            inames := (inames P)(name \<mapsto> n P),
            n := n P + 1\<rparr>)
     else Inl (UnknownColumn name))"

fun plan_bynames ::
  "bool \<Rightarrow> nat \<Rightarrow> 'a DataTable list \<Rightarrow> nat \<Rightarrow> plan \<Rightarrow> error + plan" where
  "plan_bynames force nd [] i P = Inr P"
| "plan_bynames force nd (df # rest) i P =
    (case (if \<not> force then check_ncols (n P) (dt_ncols df) else Inr ()) of
       Inl e \<Rightarrow> Inl e
     | Inr u \<Rightarrow>
        (case match_names force nd i (dt_names df) 0 P of
           Inl e \<Rightarrow> Inl e
         | Inr P1 \<Rightarrow> plan_bynames force nd rest (i + 1) P1))"

text \<open>
  The loop over the frames, by position: a frame with more columns than \<^verbatim>\<open>n\<close> lends
  the names of the excess, then every column goes to its own position.
\<close>

definition widen :: "nat \<Rightarrow> 'a DataTable \<Rightarrow> plan \<Rightarrow> plan" where
  "widen nd df P =
    (if n P < dt_ncols df then
       P\<lparr>final_names := final_names P @ map (\<lambda>j. dt_names df ! j) [n P ..< dt_ncols df],
         cols := cols P @ replicate (dt_ncols df - n P) (replicate nd INVALID_INDEX),
         n := dt_ncols df\<rparr>
     else P)"

fun plan_bypos ::
  "bool \<Rightarrow> nat \<Rightarrow> 'a DataTable list \<Rightarrow> nat \<Rightarrow> plan \<Rightarrow> error + plan" where
  "plan_bypos force nd [] i P = Inr P"
| "plan_bypos force nd (df # rest) i P =
    (case (if n P \<noteq> dt_ncols df
           then (case (if \<not> force then check_ncols (n P) (dt_ncols df) else Inr ()) of
                   Inl e \<Rightarrow> Inl e
                 | Inr u \<Rightarrow> Inr (widen nd df P))
           else Inr P) of
       Inl e \<Rightarrow> Inl e
     | Inr P1 \<Rightarrow>
         plan_bypos force nd rest (i + 1)
           (P1\<lparr>cols := foldl (\<lambda>cs j. set_col cs j i j) (cols P1) [0 ..< dt_ncols df]\<rparr>))"

text \<open>
  The planner of \<^verbatim>\<open>Frame::rbind\<close>, from the copy of the names to the end of the two
  loops: the frame's names and column count (those of the first frame when the frame
  has no columns), the matrix filled with \<^verbatim>\<open>INVALID_INDEX\<close>, then one of the loops.
  \<^verbatim>\<open>dts\<close> is not empty when the source gets here.
\<close>

definition plan_init :: "'a DataTable \<Rightarrow> 'a DataTable list \<Rightarrow> plan" where
  "plan_init dt dts =
    (let names0 = (if dt_ncols dt = 0 then dt_names (hd dts) else dt_names dt);
         n0 = (if dt_ncols dt = 0 then length names0 else dt_ncols dt)
     in \<lparr>final_names = names0, n = n0,
         cols = replicate n0 (replicate (length dts) INVALID_INDEX),
         inames = Map.empty\<rparr>)"

definition planner ::
  "bool \<Rightarrow> bool \<Rightarrow> 'a DataTable \<Rightarrow> 'a DataTable list \<Rightarrow> error + string list \<times> nat list list" where
  "planner force bynames dt dts =
    (let P0 = plan_init dt dts in
     case (if bynames
           then plan_bynames force (length dts) dts 0
                  (P0\<lparr>inames := inames_init (final_names P0) 0 Map.empty\<rparr>)
           else plan_bypos force (length dts) dts 0 P0) of
       Inl e \<Rightarrow> Inl e
     | Inr P \<Rightarrow> Inr (final_names P, cols P))"

text \<open>
  \<^verbatim>\<open>Frame::rbind\<close>: the exception thrown, if any, and the frame's table as the call
  leaves it. \<^verbatim>\<open>set_names\<close> stores the final names.
\<close>

definition Frame_rbind ::
  "'a extern \<Rightarrow> 'a DataTable \<Rightarrow> 'a robj list \<Rightarrow> bool \<Rightarrow> bool \<Rightarrow> error option \<times> 'a DataTable" where
  "Frame_rbind E dt varargs force bynames =
    (case process_varargs varargs of
       Inl e \<Rightarrow> (Some e, dt)
     | Inr dts \<Rightarrow>
         if dts = [] then (None, dt)
         else if dt_nkeys dt > 0 then (Some KeyedFrame, dt)
         else (case planner force bynames dt dts of
                 Inl e \<Rightarrow> (Some e, dt)
               | Inr (final_names1, cols1) \<Rightarrow>
                   (case DataTable_rbind E dt dts cols1 of
                      (Some e, dt1) \<Rightarrow> (Some e, dt1)
                    | (None, dt1) \<Rightarrow> (None, dt1\<lparr>dt_names := final_names1\<rparr>))))"

section \<open>Notions used to state the properties\<close>

text \<open>The frames among the arguments, in the order \<^verbatim>\<open>process_arg\<close> meets them.\<close>

fun frames_of :: "'a robj \<Rightarrow> 'a DataTable list" where
  "frames_of (PyFrame df) = [df]"
| "frames_of (PyIter items) = concat (map frames_of items)"
| "frames_of PyOther = []"

definition has_rows :: "'a DataTable \<Rightarrow> bool" where
  "has_rows df = (dt_nrows df \<noteq> 0)"



text \<open>
  The magnitude of an offset: the offset without the NA tag. A row is read from two
  consecutive entries of the offset buffer (\<open>str_elem\<close>), and the rows of a run of
  entries that follows an entry \<open>prev\<close> are \<open>dec_from prev\<close>.
\<close>

definition off_mag :: "'w::len word \<Rightarrow> nat" where
  "off_mag x = unat (x AND NOT GETNA_str)"



text \<open>The magnitudes of a run of entries do not decrease, from the entry before it on.\<close>

fun mono_from :: "'w::len word \<Rightarrow> 'w word list \<Rightarrow> bool" where
  "mono_from prev [] = True"
| "mono_from prev (e # es) = (off_mag prev \<le> off_mag e \<and> mono_from e es)"



definition str_or_void :: "'a Column \<Rightarrow> bool" where
  "str_or_void col \<longleftrightarrow> stype col = VOID \<or> stype col = STR32 \<or> stype col = STR64"


definition str_bytes :: "'a Column list \<Rightarrow> byte list" where
  "str_bytes cs = concat (map get_strdata cs)"


text \<open>
  The size of the merged string data: the bytes of this column, unless it is empty, and
  the bytes of the columns.
\<close>

definition merged_size :: "'a Column \<Rightarrow> 'a Column list \<Rightarrow> bool \<Rightarrow> nat" where
  "merged_size this columns1 col_empty =
     (if \<not> col_empty then length (get_strdata this) else 0) + length (str_bytes columns1)"

text \<open>
  A column as the first loop of the string appender leaves it: a column that is neither
  \<^verbatim>\<open>VOID\<close> nor a string is cast to the type of this column, the others are left alone.
\<close>

definition str_cast :: "'a extern \<Rightarrow> SType \<Rightarrow> 'a Column \<Rightarrow> 'a Column" where
  "str_cast E st col =
    (if stype col \<noteq> VOID \<and> ltype col \<noteq> STRING then cast_inplace E st col else col)"

text \<open>
  Modelled from the spec: the element types of section 3, where a string is one type
  whatever the width of its offsets.
\<close>

datatype ElementType = ET_void | ET_bool | ET_int8 | ET_int16 | ET_int32 | ET_int64
  | ET_float32 | ET_float64 | ET_string | ET_object

fun element_type :: "SType \<Rightarrow> ElementType" where
  "element_type VOID = ET_void"
| "element_type BOOL = ET_bool"
| "element_type INT8 = ET_int8"
| "element_type INT16 = ET_int16"
| "element_type INT32 = ET_int32"
| "element_type INT64 = ET_int64"
| "element_type FLOAT32 = ET_float32"
| "element_type FLOAT64 = ET_float64"
| "element_type STR32 = ET_string"
| "element_type STR64 = ET_string"
| "element_type OBJ = ET_object"

text \<open>
  The result type in the words of the spec (section 4.3, step 1): the pairwise common
  type of the target's type and the type of every append-column, from left to right;
  a pairing without a common type raises \<^verbatim>\<open>TypeConflict\<close> with both types.
\<close>

fun pairwise_common :: "SType \<Rightarrow> SType list \<Rightarrow> error + SType" where
  "pairwise_common t [] = Inr t"
| "pairwise_common t (u # us) =
    (case Type_common t u of
       None \<Rightarrow> Inl (TypeConflict u t)
     | Some v \<Rightarrow> pairwise_common v us)"

text \<open>
  The planner by names without the test of the same position: every name goes through
  the map \<^verbatim>\<open>inames\<close>. This is the planner that ``performs the general name-to-position
  lookup'' always; the source's planner is compared with it below.
\<close>

fun match_names_lookup ::
  "bool \<Rightarrow> nat \<Rightarrow> nat \<Rightarrow> string list \<Rightarrow> nat \<Rightarrow> plan \<Rightarrow> error + plan" where
  "match_names_lookup force nd i [] j P = Inr P"
| "match_names_lookup force nd i (name # rest) j P =
    (if inames P name \<noteq> None then
       match_names_lookup force nd i rest (j + 1)
         (P\<lparr>cols := set_col (cols P) (the (inames P name)) i j\<rparr>)
     else if force then
       match_names_lookup force nd i rest (j + 1)
         (P\<lparr>final_names := final_names P @ [name],
            cols := set_col (cols P @ [replicate nd INVALID_INDEX]) (n P) i j,
            inames := (inames P)(name \<mapsto> n P),
            n := n P + 1\<rparr>)
     else Inl (UnknownColumn name))"

fun plan_bynames_lookup ::
  "bool \<Rightarrow> nat \<Rightarrow> 'a DataTable list \<Rightarrow> nat \<Rightarrow> plan \<Rightarrow> error + plan" where
  "plan_bynames_lookup force nd [] i P = Inr P"
| "plan_bynames_lookup force nd (df # rest) i P =
    (case (if \<not> force then check_ncols (n P) (dt_ncols df) else Inr ()) of
       Inl e \<Rightarrow> Inl e
     | Inr u \<Rightarrow>
        (case match_names_lookup force nd i (dt_names df) 0 P of
           Inl e \<Rightarrow> Inl e
         | Inr P1 \<Rightarrow> plan_bynames_lookup force nd rest (i + 1) P1))"

definition planner_lookup ::
  "bool \<Rightarrow> 'a DataTable \<Rightarrow> 'a DataTable list \<Rightarrow> error + string list \<times> nat list list" where
  "planner_lookup force dt dts =
    (let P0 = plan_init dt dts in
     case plan_bynames_lookup force (length dts) dts 0
            (P0\<lparr>inames := inames_init (final_names P0) 0 Map.empty\<rparr>) of
       Inl e \<Rightarrow> Inl e
     | Inr P \<Rightarrow> Inr (final_names P, cols P))"

text \<open>
  The map \<^verbatim>\<open>inames\<close> agrees with the final names: \<^verbatim>\<open>n\<close> counts them, they are
  distinct, and the map sends each to its position and nothing else anywhere.
\<close>

definition inames_ok :: "plan \<Rightarrow> bool" where
  "inames_ok P \<longleftrightarrow> n P = length (final_names P) \<and> distinct (final_names P) \<and>
     (\<forall>x k. inames P x = Some k \<longleftrightarrow> k < length (final_names P) \<and> final_names P ! k = x)"

text \<open>
  What the copy loop of the fixed-width appender writes for one column: for a \<^verbatim>\<open>VOID\<close>
  column as many NAs as it has rows, otherwise the slots of the column, cast when its
  type differs. \<open>fw_ok\<close>: the data of such a column has a slot for each of its rows.
\<close>

definition fw_cast :: "'a extern \<Rightarrow> SType \<Rightarrow> 'a Column \<Rightarrow> 'a Column" where
  "fw_cast E st col = (if stype col \<noteq> st then cast_inplace E st col else col)"

definition fw_rows :: "'a extern \<Rightarrow> SType \<Rightarrow> 'a Column \<Rightarrow> 'a list" where
  "fw_rows E st col =
    (if stype col = VOID then replicate (nrows col) (GETNA_fw E st)
     else take (nrows (fw_cast E st col)) (get_data_readonly (fw_cast E st col)))"

definition fw_ok :: "'a extern \<Rightarrow> SType \<Rightarrow> 'a Column \<Rightarrow> bool" where
  "fw_ok E st col \<longleftrightarrow>
     stype col = VOID \<or> nrows (fw_cast E st col) \<le> length (get_data_readonly (fw_cast E st col))"

section \<open>Example values\<close>

text \<open>
  Slots are integers here; the sentinel of every fixed-width type is \<open>-128\<close>, \<^verbatim>\<open>None\<close>
  is \<open>-1\<close>. The example cast keeps a column that has the type already, carries the
  slots of a fixed-width column over to another fixed-width type or to objects, widens
  32-bit offsets to 64 bits, and otherwise answers with the missing values of the type
  asked for.
\<close>

definition ex_na_column :: "nat \<Rightarrow> SType \<Rightarrow> int Column" where
  "ex_na_column k st =
     new_na_column \<lparr>GETNA_fw = (\<lambda>t. - 128), Py_None = - 1, uninit = 0,
                    cast_inplace = (\<lambda>t c. c)\<rparr> k st"

definition ex_widen :: "32 word \<Rightarrow> 64 word" where
  "ex_widen x = (if ISNA_str x then ucast (x AND NOT GETNA_str) OR GETNA_str else ucast x)"

definition ex_cast :: "SType \<Rightarrow> int Column \<Rightarrow> int Column" where
  "ex_cast st col =
    (if stype col = st then col
     else case col of
       SentinelFw_ColumnImpl st0 k mbuf \<Rightarrow>
         if numeric_rank st \<noteq> None then SentinelFw_ColumnImpl st k mbuf
         else if st = OBJ
           then SentinelObj_ColumnImpl k (map (\<lambda>x. if x = - 128 then - 1 else x) mbuf)
         else ex_na_column k st
     | SentinelStr32_ColumnImpl k offbuf strbuf \<Rightarrow>
         if st = STR64 then SentinelStr64_ColumnImpl k (map ex_widen offbuf) strbuf
         else ex_na_column k st
     | _ \<Rightarrow> ex_na_column (nrows col) st)"

definition ex_E :: "int extern" where
  "ex_E = \<lparr>GETNA_fw = (\<lambda>t. - 128), Py_None = - 1, uninit = 0, cast_inplace = ex_cast\<rparr>"

text \<open>The frames of the examples in the documentation of \<^verbatim>\<open>dt.rbind\<close>.\<close>

definition ex_DT1 :: "int DataTable" where
  "ex_DT1 = \<lparr>dt_nrows = 3, dt_ncols = 2, dt_nkeys = 0,
     dt_columns = [SentinelFw_ColumnImpl INT32 3 [5, 4, 6],
                   SentinelFw_ColumnImpl INT32 3 [170, 172, 180]],
     dt_names = [''Weight'', ''Height'']\<rparr>"

definition ex_DT2 :: "int DataTable" where
  "ex_DT2 = \<lparr>dt_nrows = 3, dt_ncols = 2, dt_nkeys = 0,
     dt_columns = [SentinelFw_ColumnImpl INT32 3 [180, 181, 169],
                   SentinelFw_ColumnImpl INT32 3 [4, 4, 5]],
     dt_names = [''Height'', ''Weight'']\<rparr>"

definition ex_DT3 :: "int DataTable" where
  "ex_DT3 = \<lparr>dt_nrows = 3, dt_ncols = 3, dt_nkeys = 0,
     dt_columns = [SentinelFw_ColumnImpl INT32 3 [180, 181, 169],
                   SentinelFw_ColumnImpl INT32 3 [4, 4, 5],
                   SentinelFw_ColumnImpl INT32 3 [25, 50, 67]],
     dt_names = [''Height'', ''Weight'', ''Age'']\<rparr>"




text \<open>A column of one string, \<open>a\<close>, with 32-bit offsets.\<close>

definition ex_a32 :: "int Column" where
  "ex_a32 = SentinelStr32_ColumnImpl 1 [0, 1] [97]"

text \<open>A column of one string of \<open>2^31\<close> bytes, with 64-bit offsets.\<close>

definition ex_big :: "int Column" where
  "ex_big = SentinelStr64_ColumnImpl 1 [0, 2147483648] (replicate 2147483648 98)"

text \<open>
  A frame with one column \<open>A\<close> and one row, a frame with the same column and one row,
  and a frame of two rows that has a second column \<open>O\<close>: of objects (the integers 7 and
  8 stand for two Python objects) in \<open>ex_S2\<close>, of type int32 in \<open>ex_S2i\<close>.
\<close>

definition ex_T :: "int DataTable" where
  "ex_T = \<lparr>dt_nrows = 1, dt_ncols = 1, dt_nkeys = 0,
     dt_columns = [SentinelFw_ColumnImpl INT32 1 [1]], dt_names = [''A'']\<rparr>"

definition ex_S1 :: "int DataTable" where
  "ex_S1 = \<lparr>dt_nrows = 1, dt_ncols = 1, dt_nkeys = 0,
     dt_columns = [SentinelFw_ColumnImpl INT32 1 [2]], dt_names = [''A'']\<rparr>"

definition ex_S2 :: "int DataTable" where
  "ex_S2 = \<lparr>dt_nrows = 2, dt_ncols = 2, dt_nkeys = 0,
     dt_columns = [SentinelFw_ColumnImpl INT32 2 [3, 4], SentinelObj_ColumnImpl 2 [7, 8]],
     dt_names = [''A'', ''O'']\<rparr>"

definition ex_S2i :: "int DataTable" where
  "ex_S2i = \<lparr>dt_nrows = 2, dt_ncols = 2, dt_nkeys = 0,
     dt_columns = [SentinelFw_ColumnImpl INT32 2 [3, 4], SentinelFw_ColumnImpl INT32 2 [7, 8]],
     dt_names = [''A'', ''O'']\<rparr>"

text \<open>A frame without rows, a frame without columns, and a keyed frame.\<close>

definition ex_DT0 :: "int DataTable" where
  "ex_DT0 = \<lparr>dt_nrows = 0, dt_ncols = 1, dt_nkeys = 0,
     dt_columns = [SentinelFw_ColumnImpl INT32 0 []],
     dt_names = [''Other'']\<rparr>"

definition ex_empty :: "int DataTable" where
  "ex_empty = \<lparr>dt_nrows = 0, dt_ncols = 0, dt_nkeys = 0, dt_columns = [], dt_names = []\<rparr>"

definition ex_keyed :: "int DataTable" where
  "ex_keyed = ex_DT1\<lparr>dt_nkeys := 1\<rparr>"

section \<open>The arguments and the trivial case\<close>

lemma process_frames:
  "process_arg a level s = Inr s' \<Longrightarrow> fst s' = fst s @ filter has_rows (frames_of a)"
  "process_items as level s = Inr s' \<Longrightarrow> fst s' = fst s @ filter has_rows (concat (map frames_of as))"
proof (induction a level s and as level s arbitrary: s' and s' rule: process_arg_process_items.induct)
  case (1 df level s)
  then show ?case by (auto simp: has_rows_def split: prod.splits)
next
  case (2 items level s)
  then show ?case by (auto split: if_splits)
next
  case (3 level s)
  then show ?case by simp
next
  case (4 level s)
  then show ?case by simp
next
  case (5 item items level s)
  then show ?case by (auto split: sum.splits)
qed

lemma process_items_PyFrame:
  "process_items (map PyFrame fs) level (dts, j) = Inr (dts @ filter has_rows fs, j + length fs)"
  by (induction fs arbitrary: dts j) (auto simp: has_rows_def)

lemma process_varargs_PyFrame:
  "process_varargs (map PyFrame fs) = Inr (filter has_rows fs)"
  by (simp add: process_varargs_def process_items_PyFrame)

lemma process_varargs_frames:
  assumes "process_varargs args = Inr dts"
  shows "dts = filter has_rows (concat (map frames_of args))"
proof -
  from assms obtain j where "process_items args 0 ([], 0) = Inr (dts, j)"
    by (auto simp: process_varargs_def split: sum.splits)
  from process_frames(2)[OF this] show ?thesis by simp
qed

text \<open>
  Claim C8. Frames without rows are skipped: the frames that \<^verbatim>\<open>Frame::rbind\<close> works on
  are the frames among the arguments that have rows, in order, and the call does what
  it does when only these are passed (so a frame without rows brings no rows and no
  check of its columns); when none is left, the call returns without an error and the
  table is the same value: columns, row count, names and types.
\<close>

theorem zero_rows_skipped:
  assumes "process_varargs args = Inr dts"
  shows "dts = filter has_rows (concat (map frames_of args))
       \<and> Frame_rbind E dt args force bynames = Frame_rbind E dt (map PyFrame dts) force bynames
       \<and> (if dts = [] then Frame_rbind E dt args force bynames = (None, dt) else True)"
proof -
  have d: "dts = filter has_rows (concat (map frames_of args))"
    using assms by (rule process_varargs_frames)
  then have "filter has_rows dts = dts" by simp
  then have "process_varargs (map PyFrame dts) = Inr dts"
    by (simp add: process_varargs_PyFrame)
  with assms d show ?thesis by (simp add: Frame_rbind_def)
qed

lemma ex_process_varargs_DT0:
  "process_varargs [PyFrame ex_DT0, PyIter [PyFrame ex_DT0]] = Inr []"
  by (simp add: process_varargs_def ex_DT0_def)

theorem zero_rows_skipped_witness:
  "Frame_rbind ex_E ex_DT1 [PyFrame ex_DT0, PyIter [PyFrame ex_DT0]] False True = (None, ex_DT1)"
proof -
  have "if ([] :: int DataTable list) = []
        then Frame_rbind ex_E ex_DT1 [PyFrame ex_DT0, PyIter [PyFrame ex_DT0]] False True
               = (None, ex_DT1)
        else True"
    using zero_rows_skipped [OF ex_process_varargs_DT0, of ex_E ex_DT1 False True] by blast
  then show ?thesis by simp
qed

section \<open>The keyed frame\<close>

text \<open>
  Claim C7, as the code has it. The test of the keys comes after the arguments are
  processed and after the return of the trivial case. For a frame with a key column
  the call never changes the table, and it throws: the \<^verbatim>\<open>TypeError\<close> of an argument that
  is neither a frame nor a sequence, nothing at all when no frame with rows is passed,
  and otherwise \<^verbatim>\<open>KeyedFrame\<close>, before the planner runs.
\<close>

theorem keyed_frame_after_arguments:
  assumes "dt_nkeys dt > 0"
  shows "snd (Frame_rbind E dt args force bynames) = dt
     \<and> fst (Frame_rbind E dt args force bynames) =
       (case process_varargs args of
          Inl e \<Rightarrow> Some e
        | Inr dts \<Rightarrow> if dts = [] then None else Some KeyedFrame)"
  using assms by (auto simp: Frame_rbind_def split: sum.splits)

lemma ex_keyed_nkeys: "dt_nkeys ex_keyed > 0"
  by (simp add: ex_keyed_def)

theorem keyed_frame_after_arguments_witness:
  "Frame_rbind ex_E ex_keyed [PyFrame ex_DT2] False True = (Some KeyedFrame, ex_keyed)"
proof -
  have "process_varargs [PyFrame ex_DT2] = Inr [ex_DT2]"
    by (simp add: process_varargs_def ex_DT2_def)
  with keyed_frame_after_arguments [OF ex_keyed_nkeys, of ex_E "[PyFrame ex_DT2]" False True]
  show ?thesis by (simp add: prod_eq_iff)
qed

text \<open>
  The claim as stated fails: on a keyed frame, a call without a frame that has rows
  returns without any error.
\<close>

theorem keyed_frame_counterexample:
  "dt_nkeys ex_keyed > 0 \<and>
   fst (Frame_rbind ex_E ex_keyed [PyFrame ex_DT0] False True) \<noteq> Some KeyedFrame"
  by (simp add: Frame_rbind_def process_varargs_def ex_keyed_def ex_DT0_def)

section \<open>The planner without force\<close>

lemma inames_init_None:
  "inames_init names i m x = None \<longleftrightarrow> x \<notin> set names \<and> m x = None"
  by (induction names arbitrary: i m) auto

lemma match_names_False_state:
  "match_names False nd i names j P = Inr P' \<Longrightarrow>
     final_names P' = final_names P \<and> n P' = n P \<and> inames P' = inames P"
  by (induction names arbitrary: j P) (auto split: if_splits)

lemma match_names_False_Inl:
  "match_names False nd i names j P = Inl e \<Longrightarrow>
     \<exists>name \<in> set names. e = UnknownColumn name \<and> inames P name = None"
proof (induction names arbitrary: j P)
  case Nil
  then show ?case by simp
next
  case (Cons a names)
  consider (same) "j < n P \<and> a = final_names P ! j"
    | (other) "\<not> (j < n P \<and> a = final_names P ! j)" "inames P a \<noteq> None"
    | (unknown) "\<not> (j < n P \<and> a = final_names P ! j)" "inames P a = None"
    by blast
  then show ?case
  proof cases
    case same
    with Cons.prems have "match_names False nd i names (j + 1)
        (P\<lparr>cols := set_col (cols P) j i j\<rparr>) = Inl e" by simp
    from Cons.IH[OF this] show ?thesis by simp
  next
    case other
    with Cons.prems have "match_names False nd i names (j + 1)
        (P\<lparr>cols := set_col (cols P) (the (inames P a)) i j\<rparr>) = Inl e" by simp
    from Cons.IH[OF this] show ?thesis by simp
  next
    case unknown
    with Cons.prems show ?thesis by simp
  qed
qed

lemma match_names_False_unknown:
  assumes "x \<in> set names" "inames P x = None" "x \<notin> set (final_names P)"
    "n P \<le> length (final_names P)"
  shows "\<exists>e. match_names False nd i names j P = Inl e"
  using assms
proof (induction names arbitrary: j P)
  case Nil
  then show ?case by simp
next
  case (Cons a names)
  show ?case
  proof (cases "a = x")
    case True
    have "\<not> (j < n P \<and> x = final_names P ! j)"
      using Cons.prems(3,4) by (metis nth_mem order_less_le_trans)
    with True Cons.prems(2) show ?thesis by auto
  next
    case False
    with Cons.prems have x: "x \<in> set names" by simp
    consider (same) "j < n P \<and> a = final_names P ! j"
      | (other) "\<not> (j < n P \<and> a = final_names P ! j)" "inames P a \<noteq> None"
      | (unknown) "\<not> (j < n P \<and> a = final_names P ! j)" "inames P a = None"
      by blast
    then show ?thesis
    proof cases
      case same
      have "\<exists>e. match_names False nd i names (j + 1) (P\<lparr>cols := set_col (cols P) j i j\<rparr>) = Inl e"
        by (rule Cons.IH) (use x Cons.prems in simp_all)
      with same show ?thesis by auto
    next
      case other
      have "\<exists>e. match_names False nd i names (j + 1)
          (P\<lparr>cols := set_col (cols P) (the (inames P a)) i j\<rparr>) = Inl e"
        by (rule Cons.IH) (use x Cons.prems in simp_all)
      with other show ?thesis by auto
    next
      case unknown
      then show ?thesis by auto
    qed
  qed
qed

lemma plan_bynames_False_Inr:
  assumes "plan_bynames False nd dts i P = Inr P'" "n P \<le> length (final_names P)"
  shows "\<forall>d\<in>set dts. dt_ncols d = n P \<and>
           (\<forall>x\<in>set (dt_names d). inames P x \<noteq> None \<or> x \<in> set (final_names P))"
  using assms
proof (induction dts arbitrary: i P)
  case Nil
  then show ?case by simp
next
  case (Cons df dts)
  from Cons.prems(1) have c: "dt_ncols df = n P"
    by (auto simp: check_ncols_def split: sum.splits if_splits)
  from Cons.prems(1) obtain P1 where m: "match_names False nd i (dt_names df) 0 P = Inr P1"
    and r: "plan_bynames False nd dts (i + 1) P1 = Inr P'"
    by (auto simp: check_ncols_def split: sum.splits if_splits)
  note st = match_names_False_state[OF m]
  have "\<forall>x\<in>set (dt_names df). inames P x \<noteq> None \<or> x \<in> set (final_names P)"
    using match_names_False_unknown[of _ "dt_names df" P nd i 0] m Cons.prems(2) by fastforce
  moreover have "\<forall>d\<in>set dts. dt_ncols d = n P1 \<and>
           (\<forall>x\<in>set (dt_names d). inames P1 x \<noteq> None \<or> x \<in> set (final_names P1))"
    using Cons.IH[OF r] Cons.prems(2) st by simp
  ultimately show ?case using c st by simp
qed

lemma plan_bynames_False_Inl:
  assumes "plan_bynames False nd dts i P = Inl e"
  shows "(\<exists>d\<in>set dts. e = SchemaMismatch (dt_ncols d) (n P) \<and> dt_ncols d \<noteq> n P) \<or>
         (\<exists>d\<in>set dts. \<exists>x\<in>set (dt_names d). e = UnknownColumn x \<and> inames P x = None)"
  using assms
proof (induction dts arbitrary: i P)
  case Nil
  then show ?case by simp
next
  case (Cons df dts)
  show ?case
  proof (cases "dt_ncols df = n P")
    case False
    with Cons.prems show ?thesis by (auto simp: check_ncols_def)
  next
    case True
    show ?thesis
    proof (cases "match_names False nd i (dt_names df) 0 P")
      case (Inl e')
      with True Cons.prems have "e' = e" by (simp add: check_ncols_def)
      with match_names_False_Inl[OF Inl] show ?thesis by auto
    next
      case (Inr P1)
      with True Cons.prems have "plan_bynames False nd dts (i + 1) P1 = Inl e"
        by (simp add: check_ncols_def)
      from Cons.IH[OF this] match_names_False_state[OF Inr] show ?thesis by auto
    qed
  qed
qed

lemma plan_bypos_False_n:
  "plan_bypos False nd dts i P = Inr P' \<Longrightarrow> (\<forall>d\<in>set dts. dt_ncols d = n P) \<and> n P' = n P \<and> final_names P' = final_names P"
  by (induction dts arbitrary: i P) (auto simp: check_ncols_def split: sum.splits if_splits)

lemma plan_bypos_False_Inl:
  "plan_bypos False nd dts i P = Inl e \<Longrightarrow>
     \<exists>d\<in>set dts. e = SchemaMismatch (dt_ncols d) (n P) \<and> dt_ncols d \<noteq> n P"
proof (induction dts arbitrary: i P)
  case Nil
  then show ?case by simp
next
  case (Cons df dts)
  show ?case
  proof (cases "n P = dt_ncols df")
    case True
    with Cons.prems have "plan_bypos False nd dts (i + 1)
       (P\<lparr>cols := foldl (\<lambda>cs j. set_col cs j i j) (cols P) [0 ..< dt_ncols df]\<rparr>) = Inl e"
      by simp
    from Cons.IH[OF this] show ?thesis by simp
  next
    case False
    with Cons.prems show ?thesis by (auto simp: check_ncols_def)
  qed
qed

lemma plan_init_n_le: "dt_ncols dt = length (dt_names dt) \<Longrightarrow> n (plan_init dt dts) \<le> length (final_names (plan_init dt dts))"
  by (simp add: plan_init_def Let_def)

text \<open>
  Claim C6. Without \<^verbatim>\<open>force\<close>, on a frame without keys and with at least one frame
  with rows among the arguments: when a frame's number of columns differs from the
  final number of columns, or (by names) a frame has a column whose name is not among
  the final names, the call throws the \<^verbatim>\<open>ValueError\<close> of \<^verbatim>\<open>_check_ncols\<close> for such a
  frame or (by names) the \<^verbatim>\<open>ValueError\<close> for such a name, and the table is the same
  value as before the call.
\<close>

theorem planner_error_unmutated:
  assumes args: "process_varargs args = Inr dts" and ne: "dts \<noteq> []"
    and nk: "dt_nkeys dt = 0" and wf: "dt_ncols dt = length (dt_names dt)"
    and defect: "(\<exists>d\<in>set dts. dt_ncols d \<noteq> n (plan_init dt dts)) \<or>
       (bynames \<and> (\<exists>d\<in>set dts. \<exists>x\<in>set (dt_names d). x \<notin> set (final_names (plan_init dt dts))))"
  shows "\<exists>e. Frame_rbind E dt args False bynames = (Some e, dt) \<and>
     ((\<exists>d\<in>set dts. e = SchemaMismatch (dt_ncols d) (n (plan_init dt dts)) \<and>
                     dt_ncols d \<noteq> n (plan_init dt dts)) \<or>
      (bynames \<and> (\<exists>d\<in>set dts. \<exists>x\<in>set (dt_names d). e = UnknownColumn x \<and>
                     x \<notin> set (final_names (plan_init dt dts)))))"
proof -
  let ?P0 = "plan_init dt dts"
  let ?P1 = "?P0\<lparr>inames := inames_init (final_names ?P0) 0 Map.empty\<rparr>"
  have le: "n ?P1 \<le> length (final_names ?P1)" using plan_init_n_le[OF wf] by simp
  have "\<exists>e. planner False bynames dt dts = Inl e \<and>
     ((\<exists>d\<in>set dts. e = SchemaMismatch (dt_ncols d) (n ?P0) \<and> dt_ncols d \<noteq> n ?P0) \<or>
      (bynames \<and> (\<exists>d\<in>set dts. \<exists>x\<in>set (dt_names d). e = UnknownColumn x \<and> x \<notin> set (final_names ?P0))))"
  proof (cases bynames)
    case True
    show ?thesis
    proof (cases "plan_bynames False (length dts) dts 0 ?P1")
      case (Inl e)
      from plan_bynames_False_Inl[OF Inl] True Inl show ?thesis
        by (auto simp: planner_def Let_def inames_init_None)
    next
      case (Inr P')
      from plan_bynames_False_Inr[OF Inr le] defect have False
        by (auto simp: inames_init_None)
      then show ?thesis ..
    qed
  next
    case False
    show ?thesis
    proof (cases "plan_bypos False (length dts) dts 0 ?P0")
      case (Inl e)
      from plan_bypos_False_Inl[OF Inl] False Inl show ?thesis
        by (auto simp: planner_def Let_def)
    next
      case (Inr P')
      from plan_bypos_False_n[OF Inr] defect False have False by auto
      then show ?thesis ..
    qed
  qed
  then show ?thesis using args ne nk by (auto simp: Frame_rbind_def)
qed


theorem planner_error_unmutated_witness:
  "\<exists>e. Frame_rbind ex_E ex_DT1 [PyFrame ex_DT3] False True = (Some e, ex_DT1)"
proof -
  have a: "process_varargs [PyFrame ex_DT3] = Inr [ex_DT3]"
    by (simp add: process_varargs_def ex_DT3_def)
  have b: "dt_nkeys ex_DT1 = 0" "dt_ncols ex_DT1 = length (dt_names ex_DT1)"
    by (simp_all add: ex_DT1_def)
  have c: "(\<exists>d\<in>set [ex_DT3]. dt_ncols d \<noteq> n (plan_init ex_DT1 [ex_DT3])) \<or>
       (True \<and> (\<exists>d\<in>set [ex_DT3]. \<exists>x\<in>set (dt_names d).
           x \<notin> set (final_names (plan_init ex_DT1 [ex_DT3]))))"
    by (simp add: plan_init_def ex_DT1_def ex_DT3_def)
  from planner_error_unmutated [OF a _ b c, of ex_E] show ?thesis by blast
qed

section \<open>The frame without columns\<close>

lemma match_names_prefix:
  assumes "final_names P = pre @ names" "n P = length (final_names P)" "j = length pre"
  shows "\<exists>P'. match_names force nd i names j P = Inr P' \<and> final_names P' = final_names P
            \<and> n P' = n P \<and> inames P' = inames P"
  using assms
proof (induction names arbitrary: pre j P)
  case Nil
  then show ?case by simp
next
  case (Cons a names)
  let ?P = "P\<lparr>cols := set_col (cols P) j i j\<rparr>"
  have here: "j < n P \<and> a = final_names P ! j"
    using Cons.prems by simp
  have "\<exists>P'. match_names force nd i names (j + 1) ?P = Inr P' \<and> final_names P' = final_names ?P
            \<and> n P' = n ?P \<and> inames P' = inames ?P"
    by (rule Cons.IH [where pre = "pre @ [a]"]) (use Cons.prems in simp_all)
  with here show ?case by auto
qed

text \<open>
  Claim C10. When the frame has no columns, the names and the column count the planner
  starts from are those of the first frame with rows, by names and by position, and
  they are set before the loops that call \<^verbatim>\<open>_check_ncols\<close>. So, without \<^verbatim>\<open>force\<close>, the
  first frame alone is always accepted, whatever its number of columns, and with more
  frames a \<^verbatim>\<open>SchemaMismatch\<close> can only compare a later frame with the first one.
\<close>

theorem zero_columns_seeded:
  assumes z: "dt_ncols dt = 0" and wf: "dt_ncols df = length (dt_names df)"
  shows "final_names (plan_init dt (df # rest)) = dt_names df
       \<and> n (plan_init dt (df # rest)) = dt_ncols df
       \<and> (\<exists>cs. planner False bynames dt [df] = Inr (dt_names df, cs))
       \<and> (\<forall>a b. planner False bynames dt (df # rest) = Inl (SchemaMismatch a b) \<longrightarrow>
             b = dt_ncols df \<and> a \<noteq> dt_ncols df \<and> (\<exists>d\<in>set rest. dt_ncols d = a))"
proof -
  have init: "final_names (plan_init dt (df # rs)) = dt_names df"
       "n (plan_init dt (df # rs)) = dt_ncols df" for rs
    using z wf by (simp_all add: plan_init_def Let_def)
  have first: "\<exists>P'. match_names False nd 0 (dt_names df) 0 P = Inr P' \<and> final_names P' = final_names P
            \<and> n P' = n P \<and> inames P' = inames P"
    if "final_names P = dt_names df" "n P = dt_ncols df" for P nd
    by (rule match_names_prefix [where pre = "[]"]) (use that wf in simp_all)
  have rest_err: "b = dt_ncols df \<and> a \<noteq> dt_ncols df \<and> (\<exists>d\<in>set rs. dt_ncols d = a)"
    if "planner False bynames dt (df # rs) = Inl (SchemaMismatch a b)" for a b rs
  proof (cases bynames)
    case True
    let ?P = "(plan_init dt (df # rs))\<lparr>inames := inames_init (final_names (plan_init dt (df # rs))) 0 Map.empty\<rparr>"
    from first [of ?P "length (df # rs)"] init [of rs] obtain P1
      where m: "match_names False (length (df # rs)) 0 (dt_names df) 0 ?P = Inr P1"
        and n1: "n P1 = dt_ncols df" by auto
    from that True m init [of rs]
    have "plan_bynames False (length (df # rs)) rs 1 P1 = Inl (SchemaMismatch a b)"
      by (auto simp: planner_def Let_def check_ncols_def split: sum.splits)
    from plan_bynames_False_Inl [OF this] n1 show ?thesis by auto
  next
    case False
    let ?P = "plan_init dt (df # rs)"
    from that False init [of rs]
    have "plan_bypos False (length (df # rs)) rs 1
            (?P\<lparr>cols := foldl (\<lambda>cs j. set_col cs j 0 j) (cols ?P) [0 ..< dt_ncols df]\<rparr>)
          = Inl (SchemaMismatch a b)"
      by (auto simp: planner_def Let_def split: sum.splits)
    from plan_bypos_False_Inl [OF this] init [of rs] show ?thesis by auto
  qed
  have single: "\<exists>cs. planner False bynames dt [df] = Inr (dt_names df, cs)"
  proof (cases bynames)
    case True
    let ?P = "(plan_init dt [df])\<lparr>inames := inames_init (final_names (plan_init dt [df])) 0 Map.empty\<rparr>"
    from first [of ?P "length [df]"] init [of "[]"] obtain P1
      where "match_names False (length [df]) 0 (dt_names df) 0 ?P = Inr P1"
        and "final_names P1 = dt_names df" by auto
    with True init [of "[]"] show ?thesis
      by (simp add: planner_def Let_def check_ncols_def)
  next
    case False
    with init [of "[]"] show ?thesis by (simp add: planner_def Let_def)
  qed
  from init [of rest] single rest_err show ?thesis by blast
qed


lemma ex_zero_columns: "dt_ncols ex_empty = 0" "dt_ncols ex_DT3 = length (dt_names ex_DT3)"
  by (simp_all add: ex_empty_def ex_DT3_def)

theorem zero_columns_seeded_witness:
  "\<exists>cs. planner False False ex_empty [ex_DT3] = Inr (dt_names ex_DT3, cs)"
  using zero_columns_seeded [OF ex_zero_columns, of "[]" False] by blast

section \<open>The test of the same position\<close>

lemma inames_init_Some:
  assumes "distinct names" "\<forall>x\<in>set names. m x = None"
  shows "inames_init names i m x = Some k \<longleftrightarrow>
           (\<exists>q < length names. names ! q = x \<and> k = i + q) \<or> (x \<notin> set names \<and> m x = Some k)"
  using assms
proof (induction names arbitrary: i m)
  case Nil
  then show ?case by simp
next
  case (Cons a names)
  have IH: "inames_init names (i + 1) (m(a \<mapsto> i)) x = Some k \<longleftrightarrow>
           (\<exists>q < length names. names ! q = x \<and> k = i + 1 + q) \<or>
           (x \<notin> set names \<and> (m(a \<mapsto> i)) x = Some k)"
    by (rule Cons.IH) (use Cons.prems in auto)
  show ?case
  proof (cases "x = a")
    case True
    with Cons.prems have "x \<notin> set names" by simp
    then have "\<not> (\<exists>q < length names. names ! q = x \<and> k = i + 1 + q)" by auto
    moreover have "(\<exists>q < length (a # names). (a # names) ! q = x \<and> k = i + q) \<longleftrightarrow> k = i"
    proof
      assume "\<exists>q < length (a # names). (a # names) ! q = x \<and> k = i + q"
      then obtain q where q: "q < length (a # names)" "(a # names) ! q = x" "k = i + q" by blast
      with True \<open>x \<notin> set names\<close> have "q = 0" by (cases q) auto
      with q show "k = i" by simp
    next
      assume "k = i"
      with True show "\<exists>q < length (a # names). (a # names) ! q = x \<and> k = i + q"
        by (intro exI [of _ 0]) simp
    qed
    ultimately show ?thesis using IH True \<open>x \<notin> set names\<close> by auto
  next
    case False
    have "(\<exists>q < length (a # names). (a # names) ! q = x \<and> k = i + q) \<longleftrightarrow>
          (\<exists>q < length names. names ! q = x \<and> k = i + 1 + q)"
    proof
      assume "\<exists>q < length (a # names). (a # names) ! q = x \<and> k = i + q"
      then obtain q where q: "q < length (a # names)" "(a # names) ! q = x" "k = i + q" by blast
      with False obtain q' where "q = Suc q'" by (cases q) auto
      with q show "\<exists>q < length names. names ! q = x \<and> k = i + 1 + q" by auto
    next
      assume "\<exists>q < length names. names ! q = x \<and> k = i + 1 + q"
      then obtain q where "q < length names" "names ! q = x" "k = i + 1 + q" by blast
      then show "\<exists>q < length (a # names). (a # names) ! q = x \<and> k = i + q"
        by (intro exI [of _ "Suc q"]) simp
    qed
    with IH False show ?thesis by auto
  qed
qed

lemma inames_ok_init:
  assumes "n P = length (final_names P)" "distinct (final_names P)"
  shows "inames_ok (P\<lparr>inames := inames_init (final_names P) 0 Map.empty\<rparr>)"
  using assms inames_init_Some [of "final_names P" Map.empty] 
  by (auto simp: inames_ok_def)

lemma inames_ok_cols: "inames_ok (P\<lparr>cols := c\<rparr>) = inames_ok P"
  by (simp add: inames_ok_def)

lemma inames_ok_same:
  assumes "inames_ok P" "j < n P" "x = final_names P ! j"
  shows "inames P x = Some j"
  using assms by (simp add: inames_ok_def)

lemma inames_ok_None:
  assumes "inames_ok P"
  shows "inames P x = None \<longleftrightarrow> x \<notin> set (final_names P)"
proof -
  have "inames P x \<noteq> None \<longleftrightarrow> (\<exists>k. inames P x = Some k)" by auto
  also have "\<dots> \<longleftrightarrow> (\<exists>k < length (final_names P). final_names P ! k = x)"
    using assms by (auto simp: inames_ok_def)
  also have "\<dots> \<longleftrightarrow> x \<in> set (final_names P)" by (auto simp: in_set_conv_nth)
  finally show ?thesis by blast
qed

lemma inames_ok_extend:
  assumes "inames_ok P" "inames P x = None"
  shows "inames_ok (P\<lparr>final_names := final_names P @ [x], cols := c,
            inames := (inames P)(x \<mapsto> n P), n := n P + 1\<rparr>)"
proof -
  from assms have nx: "x \<notin> set (final_names P)" by (simp add: inames_ok_None)
  have len: "n P = length (final_names P)" and d: "distinct (final_names P)"
    and m: "\<And>y k. inames P y = Some k \<longleftrightarrow> k < length (final_names P) \<and> final_names P ! k = y"
    using assms(1) by (auto simp: inames_ok_def)
  have "((inames P)(x \<mapsto> n P)) y = Some k \<longleftrightarrow>
        k < length (final_names P @ [x]) \<and> (final_names P @ [x]) ! k = y" for y k
  proof (cases "y = x")
    case True
    have "k < length (final_names P @ [x]) \<and> (final_names P @ [x]) ! k = x \<longleftrightarrow> k = length (final_names P)"
      using nx by (auto simp: nth_append less_Suc_eq)
    with True len show ?thesis by auto
  next
    case False
    have "k < length (final_names P @ [x]) \<and> (final_names P @ [x]) ! k = y \<longleftrightarrow>
          k < length (final_names P) \<and> final_names P ! k = y"
      using False by (auto simp: nth_append less_Suc_eq)
    with False m show ?thesis by simp
  qed
  with len d nx show ?thesis by (simp add: inames_ok_def)
qed

lemma match_names_lookup_eq:
  assumes "inames_ok P"
  shows "match_names force nd i names j P = match_names_lookup force nd i names j P
       \<and> (\<forall>P'. match_names force nd i names j P = Inr P' \<longrightarrow> inames_ok P')"
  using assms
proof (induction names arbitrary: j P)
  case Nil
  then show ?case by simp
next
  case (Cons a names)
  consider (same) "j < n P \<and> a = final_names P ! j"
    | (other) "\<not> (j < n P \<and> a = final_names P ! j)" "inames P a \<noteq> None"
    | (new) "\<not> (j < n P \<and> a = final_names P ! j)" "inames P a = None" "force"
    | (unknown) "\<not> (j < n P \<and> a = final_names P ! j)" "inames P a = None" "\<not> force"
    by blast
  then show ?case
  proof cases
    case same
    then have s: "inames P a = Some j" using Cons.prems by (simp add: inames_ok_same)
    have "inames_ok (P\<lparr>cols := set_col (cols P) j i j\<rparr>)"
      using Cons.prems by (simp add: inames_ok_cols)
    from Cons.IH [OF this] same s show ?thesis by simp
  next
    case other
    have "inames_ok (P\<lparr>cols := set_col (cols P) (the (inames P a)) i j\<rparr>)"
      using Cons.prems by (simp add: inames_ok_cols)
    from Cons.IH [OF this] other show ?thesis by auto
  next
    case new
    have "inames_ok (P\<lparr>final_names := final_names P @ [a],
            cols := set_col (cols P @ [replicate nd INVALID_INDEX]) (n P) i j,
            inames := (inames P)(a \<mapsto> n P), n := n P + 1\<rparr>)"
      using Cons.prems new(2) by (rule inames_ok_extend)
    from Cons.IH [OF this] new show ?thesis by auto
  next
    case unknown
    then show ?thesis by auto
  qed
qed

lemma plan_bynames_lookup_eq:
  assumes "inames_ok P"
  shows "plan_bynames force nd dts i P = plan_bynames_lookup force nd dts i P"
  using assms
proof (induction dts arbitrary: i P)
  case Nil
  then show ?case by simp
next
  case (Cons df dts)
  note m = match_names_lookup_eq [OF Cons.prems, of force nd i "dt_names df" 0]
  then have eq: "match_names force nd i (dt_names df) 0 P =
      match_names_lookup force nd i (dt_names df) 0 P" by blast
  show ?case
  proof (cases "match_names_lookup force nd i (dt_names df) 0 P")
    case (Inl e)
    with eq show ?thesis
      by (cases force; cases "check_ncols (n P) (dt_ncols df)") simp_all
  next
    case (Inr P1)
    with m have "inames_ok P1" by simp
    from Cons.IH [OF this] Inr eq show ?thesis
      by (cases force; cases "check_ncols (n P) (dt_ncols df)") simp_all
  qed
qed

text \<open>
  Claim C9. By names, the planner of the source, which first tests whether the name
  stands at the same position in the final names, and the planner that always looks
  the name up in \<^verbatim>\<open>inames\<close> give the same result (the final names and the matrix, or
  the same error) for every list of frames, when the names the planner starts from are
  distinct and as many as the frame's columns.
\<close>

theorem fast_path_equivalent:
  assumes "dt_ncols dt = length (dt_names dt)" "distinct (final_names (plan_init dt dts))"
  shows "planner force True dt dts = planner_lookup force dt dts"
proof -
  have "n (plan_init dt dts) = length (final_names (plan_init dt dts))"
    using assms(1) by (simp add: plan_init_def Let_def)
  from inames_ok_init [OF this assms(2)] show ?thesis
    by (simp add: planner_def planner_lookup_def Let_def plan_bynames_lookup_eq)
qed


theorem fast_path_equivalent_witness:
  "planner True True ex_DT1 [ex_DT3] = planner_lookup True ex_DT1 [ex_DT3]"
proof -
  have "dt_ncols ex_DT1 = length (dt_names ex_DT1)"
    by (simp add: ex_DT1_def)
  moreover have "distinct (final_names (plan_init ex_DT1 [ex_DT3]))"
    by (simp add: plan_init_def ex_DT1_def)
  ultimately show ?thesis by (rule fast_path_equivalent)
qed

section \<open>The string appender\<close>

subsection \<open>Offsets and the NA tag\<close>

lemma GETNA_str_pow: "(GETNA_str :: 'w::len word) = 2 ^ (LENGTH('w) - 1)"
  by (simp add: GETNA_str_def push_bit_eq_mult)

lemma and_not_GETNA: "(x :: 'w::len word) AND NOT GETNA_str = take_bit (LENGTH('w) - 1) x"
  by (rule bit_word_eqI) (auto simp: GETNA_str_pow bit_simps)

lemma off_mag_mod: "off_mag (x :: 'w::len word) = unat x mod 2 ^ (LENGTH('w) - 1)"
  unfolding off_mag_def and_not_GETNA unsigned_take_bit_eq by (simp add: take_bit_eq_mod)

lemma off_mag_less: "off_mag (x :: 'w::len word) < 2 ^ (LENGTH('w) - 1)"
  by (simp add: off_mag_mod)

lemma of_nat_off_mag: "of_nat (off_mag x) = x AND NOT GETNA_str"
  by (simp add: off_mag_def)

lemma ISNA_str_bit: "ISNA_str (x :: 'w::len word) \<longleftrightarrow> bit x (LENGTH('w) - 1)"
  by (simp add: ISNA_str_def GETNA_str_def bit_iff_and_push_bit_not_eq_0)

lemma two_pow_len: "(2 :: nat) ^ LENGTH('w::len) = 2 * 2 ^ (LENGTH('w) - 1)"
proof -
  have "LENGTH('w) = Suc (LENGTH('w) - 1)" by simp
  then have "(2 :: nat) ^ LENGTH('w) = 2 ^ Suc (LENGTH('w) - 1)" by (rule arg_cong)
  then show ?thesis by (simp only: power_Suc)
qed

lemma ISNA_str_unat: "ISNA_str (x :: 'w::len word) \<longleftrightarrow> 2 ^ (LENGTH('w) - 1) \<le> unat x"
proof -
  define P :: nat where "P = 2 ^ (LENGTH('w) - 1)"
  have P: "0 < P" by (simp add: P_def)
  have "unat x < 2 ^ LENGTH('w)" by simp
  then have "unat x < 2 * P"
    by (simp only: two_pow_len P_def)
  then have d: "unat x div P < 2"
    by (simp add: less_mult_imp_div_less mult.commute)
  have "ISNA_str x \<longleftrightarrow> bit (unat x) (LENGTH('w) - 1)"
    by (simp add: ISNA_str_bit bit_unsigned_iff)
  also have "\<dots> \<longleftrightarrow> odd (unat x div P)"
    by (simp only: bit_iff_odd P_def)
  also have "\<dots> \<longleftrightarrow> 0 < unat x div P"
    using d by (cases "unat x div P") auto
  also have "\<dots> \<longleftrightarrow> P \<le> unat x"
    using P by (simp add: div_greater_zero_iff)
  finally show ?thesis by (simp only: P_def)
qed

lemma unat_less_twice: "unat (x :: 'w::len word) < 2 * 2 ^ (LENGTH('w) - 1)"
proof -
  have "unat x < 2 ^ LENGTH('w)" by simp
  then show ?thesis by (simp only: two_pow_len)
qed

lemma unat_split_na:
  "unat (x :: 'w::len word) = off_mag x + (if ISNA_str x then 2 ^ (LENGTH('w) - 1) else 0)"
proof (cases "ISNA_str x")
  case True
  then have le: "2 ^ (LENGTH('w) - 1) \<le> unat x" by (simp add: ISNA_str_unat)
  have "unat x mod 2 ^ (LENGTH('w) - 1) = (unat x - 2 ^ (LENGTH('w) - 1)) mod 2 ^ (LENGTH('w) - 1)"
    using le by (rule le_mod_geq)
  also have "\<dots> = unat x - 2 ^ (LENGTH('w) - 1)"
    using unat_less_twice [of x] by (intro mod_less) linarith
  finally show ?thesis using True le by (simp add: off_mag_mod)
next
  case False
  then have "unat x < 2 ^ (LENGTH('w) - 1)" by (simp add: ISNA_str_unat)
  with False show ?thesis by (simp add: off_mag_mod)
qed

lemma word_split_na:
  "(x :: 'w::len word) = of_nat (off_mag x) + (if ISNA_str x then GETNA_str else 0)"
proof -
  have "x = of_nat (unat x)" by simp
  also have "\<dots> = of_nat (off_mag x + (if ISNA_str x then 2 ^ (LENGTH('w) - 1) else 0))"
    by (simp only: unat_split_na [symmetric])
  also have "\<dots> = of_nat (off_mag x) + (if ISNA_str x then GETNA_str else 0)"
    by (simp add: GETNA_str_pow)
  finally show ?thesis .
qed















lemma mono_from_last: "mono_from p xs \<Longrightarrow> off_mag p \<le> off_mag (last (p # xs))"
  by (induction xs arbitrary: p) (auto intro: order_trans)

lemma mono_from_bound:
  "mono_from p xs \<Longrightarrow> e \<in> set (p # xs) \<Longrightarrow> off_mag e \<le> off_mag (last (p # xs))"
proof (induction xs arbitrary: p)
  case Nil
  then show ?case by simp
next
  case (Cons x xs)
  from Cons.prems(1) have m: "off_mag p \<le> off_mag x" "mono_from x xs" by simp_all
  show ?case
  proof (cases "e = p")
    case True
    with m mono_from_last [OF m(2)] show ?thesis by simp
  next
    case False
    with Cons.prems(2) have "e \<in> set (x # xs)" by simp
    from Cons.IH [OF m(2) this] show ?thesis by simp
  qed
qed




lemma not_na_mask: "\<not> ISNA_str (x :: 'w::len word) \<Longrightarrow> x AND NOT GETNA_str = x"
  using word_split_na [of x] of_nat_off_mag [of x] by simp








lemma off_mag_0 [simp]: "off_mag (0 :: 'w::len word) = 0"
  by (simp add: off_mag_def)









subsection \<open>What the second loop writes\<close>




lemma str_bytes_Cons: "str_bytes (col # cs) = get_strdata col @ str_bytes cs"
  by (simp add: str_bytes_def)


lemma length_write_buf:
  "pos + length data \<le> length buf \<Longrightarrow> length (write_buf buf pos data) = length buf"
  by (simp add: write_buf_def)

lemma take_write_buf:
  "pos \<le> length buf \<Longrightarrow> take (pos + length data) (write_buf buf pos data) = take pos buf @ data"
  by (simp add: write_buf_def)

lemma write_buf_Nil: "pos \<le> length buf \<Longrightarrow> write_buf buf pos [] = buf"
  by (simp add: write_buf_def)




subsection \<open>The append\<close>

lemma length_resize_buf [simp]: "length (resize_buf f buf k) = k"
  by (simp add: resize_buf_def)

lemma take_resize_buf: "length buf \<le> k \<Longrightarrow> take (length buf) (resize_buf f buf k) = buf"
  by (simp add: resize_buf_def)




lemma get_strdata_void: "stype col = VOID \<Longrightarrow> get_strdata col = []"
  by (cases col) simp_all







lemma GETNA_32: "(GETNA_str :: 32 word) = 0x80000000"
  by (simp add: GETNA_str_def)






section \<open>The retry with 64-bit offsets\<close>

text \<open>
  The first loop returns the columns it was given, each cast where the source casts it,
  and adds the bytes of each of them to the size it starts from.
\<close>

lemma str_size_loop_cast:
  "str_size_loop E st columns sz =
     (map (str_cast E st) columns, sz + length (str_bytes (map (str_cast E st) columns)))"
proof (induction columns arbitrary: sz)
  case Nil
  show ?case by (simp add: str_bytes_def)
next
  case (Cons col columns)
  show ?case
  proof (cases "stype col = VOID")
    case True
    then show ?thesis
      by (simp add: Cons.IH str_cast_def str_bytes_Cons get_strdata_void)
  next
    case False
    then show ?thesis
      by (simp add: Cons.IH str_cast_def str_bytes_Cons Let_def)
  qed
qed

lemma str_cast_id:
  "\<forall>c \<in> set columns. str_or_void c \<Longrightarrow> map (str_cast E st) columns = columns"
  by (induction columns) (auto simp: str_cast_def str_or_void_def ltype_def)

lemma rbind_impl_str32_cast:
  "rbind_impl E (SentinelStr32_ColumnImpl k ob sb) columns new_nrows col_empty new_stype =
    (if merged_size (SentinelStr32_ColumnImpl k ob sb) (map (str_cast E STR32) columns) col_empty
          > MAX_ARR32_SIZE \<or> new_nrows > MAX_ARR32_SIZE
     then (map (str_cast E STR32) columns, STR64, SentinelStr32_ColumnImpl k ob sb)
     else (map (str_cast E STR32) columns, new_stype,
           case str_append k ob sb (map (str_cast E STR32) columns)
                  (merged_size (SentinelStr32_ColumnImpl k ob sb)
                     (map (str_cast E STR32) columns) col_empty)
                  new_nrows col_empty of
             (n1, ob1, sb1) \<Rightarrow> SentinelStr32_ColumnImpl n1 ob1 sb1))"
  by (simp add: SentinelStr_rbind_impl_def str_size_loop_cast merged_size_def split: prod.splits)

lemma rbind_impl_str64_cast:
  "rbind_impl E (SentinelStr64_ColumnImpl k ob sb) columns new_nrows col_empty new_stype =
     (map (str_cast E STR64) columns, new_stype,
      case str_append k ob sb (map (str_cast E STR64) columns)
             (merged_size (SentinelStr64_ColumnImpl k ob sb)
                (map (str_cast E STR64) columns) col_empty)
             new_nrows col_empty of
        (n1, ob1, sb1) \<Rightarrow> SentinelStr64_ColumnImpl n1 ob1 sb1)"
  by (simp add: SentinelStr_rbind_impl_def str_size_loop_cast merged_size_def split: prod.splits)

lemma fst_str_append: "fst (str_append k ob sb cs sz new_nrows col_empty) = new_nrows"
  by (simp add: str_append_def Let_def split: prod.splits)

text \<open>
  Claim C3. An append into a column with 32-bit offsets first computes the size of the
  merged string data, over the columns it is given (\<open>cs32\<close>: these columns, a column that
  is neither \<^verbatim>\<open>VOID\<close> nor a string cast first, as the first loop does), and has the final
  number of rows. When one of the two exceeds \<^verbatim>\<open>MAX_ARR32_SIZE\<close>, the call returns with
  \<^verbatim>\<open>new_stype = STR64\<close> and the column as it was; \<^verbatim>\<open>Column::rbind\<close> then casts the column
  to \<^verbatim>\<open>STR64\<close> and calls \<^verbatim>\<open>rbind_impl\<close> again, on the columns as the first call left them,
  and this second call (the cast gives a column with 64-bit offsets) runs the append: it
  has no early return, leaves \<^verbatim>\<open>new_stype\<close> as it is, whatever it is, and produces
  \<^verbatim>\<open>new_nrows\<close> rows. When neither exceeds the limit, the first call runs the append,
  leaves \<^verbatim>\<open>new_stype = VOID\<close>, and there is no second call.
\<close>

theorem str32_overflow_retry:
  assumes th: "this = SentinelStr32_ColumnImpl k ob sb"
    and cast: "cast_inplace E STR64 this = SentinelStr64_ColumnImpl k' ob' sb'"
    and c32: "cs32 = map (str_cast E STR32) columns"
    and c64: "cs64 = map (str_cast E STR64) cs32"
  shows "if merged_size this cs32 col_empty > MAX_ARR32_SIZE \<or> new_nrows > MAX_ARR32_SIZE
         then rbind_impl E this columns new_nrows col_empty VOID = (cs32, STR64, this)
            \<and> (\<forall>ns. rbind_impl E (cast_inplace E STR64 this) cs32 new_nrows col_empty ns
                      = (cs64, ns, rbind_append E this columns new_nrows col_empty))
            \<and> rbind_append E this columns new_nrows col_empty =
                 (case str_append k' ob' sb' cs64
                          (merged_size (cast_inplace E STR64 this) cs64 col_empty)
                          new_nrows col_empty of
                    (n1, ob1, sb1) \<Rightarrow> SentinelStr64_ColumnImpl n1 ob1 sb1)
            \<and> stype (rbind_append E this columns new_nrows col_empty) = STR64
            \<and> nrows (rbind_append E this columns new_nrows col_empty) = new_nrows
         else rbind_impl E this columns new_nrows col_empty VOID =
                 (cs32, VOID, rbind_append E this columns new_nrows col_empty)
            \<and> rbind_append E this columns new_nrows col_empty =
                 (case str_append k ob sb cs32 (merged_size this cs32 col_empty)
                          new_nrows col_empty of
                    (n1, ob1, sb1) \<Rightarrow> SentinelStr32_ColumnImpl n1 ob1 sb1)
            \<and> stype (rbind_append E this columns new_nrows col_empty) = STR32
            \<and> nrows (rbind_append E this columns new_nrows col_empty) = new_nrows"
proof (cases "merged_size this cs32 col_empty > MAX_ARR32_SIZE \<or> new_nrows > MAX_ARR32_SIZE")
  case True
  let ?t2 = "case str_append k' ob' sb' cs64
                   (merged_size (cast_inplace E STR64 this) cs64 col_empty)
                   new_nrows col_empty of
               (n1, ob1, sb1) \<Rightarrow> SentinelStr64_ColumnImpl n1 ob1 sb1"
  have r1: "rbind_impl E this columns new_nrows col_empty VOID = (cs32, STR64, this)"
    using True unfolding th c32 by (simp only: rbind_impl_str32_cast if_True)
  have r2: "rbind_impl E (cast_inplace E STR64 this) cs32 new_nrows col_empty ns = (cs64, ns, ?t2)"
    for ns
    unfolding cast c64 by (rule rbind_impl_str64_cast)
  have a: "rbind_append E this columns new_nrows col_empty = ?t2"
    by (simp add: rbind_append_def r1 r2)
  have s: "stype ?t2 = STR64" by (simp split: prod.splits)
  have n: "nrows ?t2 = new_nrows"
    using fst_str_append [of k' ob' sb' cs64
        "merged_size (cast_inplace E STR64 this) cs64 col_empty" new_nrows col_empty]
    by (auto split: prod.splits)
  show ?thesis
    unfolding if_P [OF True] a using r1 r2 s n by blast
next
  case False
  let ?t1 = "case str_append k ob sb cs32 (merged_size this cs32 col_empty)
                   new_nrows col_empty of
               (n1, ob1, sb1) \<Rightarrow> SentinelStr32_ColumnImpl n1 ob1 sb1"
  have r1: "rbind_impl E this columns new_nrows col_empty VOID = (cs32, VOID, ?t1)"
    using False unfolding th c32 by (simp only: rbind_impl_str32_cast if_False)
  have a: "rbind_append E this columns new_nrows col_empty = ?t1"
    by (simp add: rbind_append_def r1)
  have s: "stype ?t1 = STR32" by (simp split: prod.splits)
  have n: "nrows ?t1 = new_nrows"
    using fst_str_append [of k ob sb cs32 "merged_size this cs32 col_empty" new_nrows col_empty]
    by (auto split: prod.splits)
  show ?thesis
    unfolding if_not_P [OF False] a using r1 s n by blast
qed


lemma ex_cast_a32: "cast_inplace ex_E STR64 ex_a32 = SentinelStr64_ColumnImpl 1 [0, 1] [97]"
  by (simp add: ex_E_def ex_cast_def ex_a32_def ex_widen_def ISNA_str_def GETNA_32)

text \<open>
  The column \<open>a\<close> takes a string of \<open>2^31\<close> bytes (the bytes exceed the limit, the rows do
  not), and takes \<open>2^31 - 1\<close> rows of NAs (the rows exceed the limit, the bytes do not).
\<close>

lemma ex_big_cast: "map (str_cast ex_E st) [ex_big] = [ex_big]"
  by (simp add: str_cast_def ex_big_def ltype_def)

lemma ex_big_size: "merged_size ex_a32 [ex_big] False = 2147483649"
  by (simp add: merged_size_def str_bytes_def ex_a32_def ex_big_def)

lemma ex_na_cast:
  "map (str_cast ex_E st) [ConstNa_ColumnImpl 2147483647] = [ConstNa_ColumnImpl 2147483647]"
  by (simp add: str_cast_def)

theorem str32_overflow_retry_witness:
  "merged_size ex_a32 [ex_big] False = 2147483649
   \<and> rbind_impl ex_E ex_a32 [ex_big] 2 False VOID = ([ex_big], STR64, ex_a32)
   \<and> rbind_impl ex_E (cast_inplace ex_E STR64 ex_a32) [ex_big] 2 False STR64
        = ([ex_big], STR64, rbind_append ex_E ex_a32 [ex_big] 2 False)
   \<and> stype (rbind_append ex_E ex_a32 [ex_big] 2 False) = STR64
   \<and> nrows (rbind_append ex_E ex_a32 [ex_big] 2 False) = 2
   \<and> rbind_impl ex_E ex_a32 [ConstNa_ColumnImpl 2147483647] 2147483648 False VOID
        = ([ConstNa_ColumnImpl 2147483647], STR64, ex_a32)
   \<and> stype (rbind_append ex_E ex_a32 [ConstNa_ColumnImpl 2147483647] 2147483648 False) = STR64
   \<and> nrows (rbind_append ex_E ex_a32 [ConstNa_ColumnImpl 2147483647] 2147483648 False)
        = 2147483648"
proof -
  have big: "merged_size ex_a32 [ex_big] False > MAX_ARR32_SIZE \<or> (2 :: nat) > MAX_ARR32_SIZE"
    by (simp add: ex_big_size MAX_ARR32_SIZE_def)
  note t = str32_overflow_retry [OF ex_a32_def ex_cast_a32 ex_big_cast [symmetric]
      ex_big_cast [symmetric], where col_empty = False and new_nrows = 2]
  have a: "rbind_impl ex_E ex_a32 [ex_big] 2 False VOID = ([ex_big], STR64, ex_a32)"
    and b: "\<forall>ns. rbind_impl ex_E (cast_inplace ex_E STR64 ex_a32) [ex_big] 2 False ns
        = ([ex_big], ns, rbind_append ex_E ex_a32 [ex_big] 2 False)"
    and c: "stype (rbind_append ex_E ex_a32 [ex_big] 2 False) = STR64"
      "nrows (rbind_append ex_E ex_a32 [ex_big] 2 False) = 2"
    using t unfolding if_P [OF big] by blast+
  have rows: "merged_size ex_a32 [ConstNa_ColumnImpl 2147483647] False > MAX_ARR32_SIZE
      \<or> (2147483648 :: nat) > MAX_ARR32_SIZE"
    by (simp add: MAX_ARR32_SIZE_def)
  note u = str32_overflow_retry [OF ex_a32_def ex_cast_a32 ex_na_cast [symmetric]
      ex_na_cast [symmetric], where col_empty = False and new_nrows = 2147483648]
  have d: "rbind_impl ex_E ex_a32 [ConstNa_ColumnImpl 2147483647] 2147483648 False VOID
        = ([ConstNa_ColumnImpl 2147483647], STR64, ex_a32)"
    and e: "stype (rbind_append ex_E ex_a32 [ConstNa_ColumnImpl 2147483647] 2147483648 False)
        = STR64"
      "nrows (rbind_append ex_E ex_a32 [ConstNa_ColumnImpl 2147483647] 2147483648 False)
        = 2147483648"
    using u unfolding if_P [OF rows] by blast+
  from b have b': "rbind_impl ex_E (cast_inplace ex_E STR64 ex_a32) [ex_big] 2 False STR64
        = ([ex_big], STR64, rbind_append ex_E ex_a32 [ex_big] 2 False)" by blast
  show ?thesis using ex_big_size a b' c d e by blast
qed

section \<open>The type of the result\<close>

lemma stype_new_na_column [simp]: "stype (new_na_column E k st) = st"
  by (cases st) simp_all

lemma nrows_new_na_column [simp]: "nrows (new_na_column E k st) = k"
  by (cases st) simp_all

lemma common_type_loop_pairwise:
  "common_type_loop columns (k, t) =
     (case pairwise_common t (map stype columns) of
        Inl e \<Rightarrow> Inl e
      | Inr t' \<Rightarrow> Inr (k + sum_list (map nrows columns), t'))"
proof (induction columns arbitrary: k t)
  case Nil
  then show ?case by simp
next
  case (Cons col columns)
  show ?case
  proof (cases "Type_common t (stype col)")
    case None
    then show ?thesis by simp
  next
    case (Some v)
    with Cons.IH [of "k + nrows col" v] show ?thesis
      by (cases "pairwise_common v (map stype columns)") (simp_all add: add.assoc)
  qed
qed

lemma pairwise_common_conflict:
  "pairwise_common t us = Inl e \<Longrightarrow>
     \<exists>a b. e = TypeConflict a b \<and> a \<in> set us \<and> Type_common b a = None"
proof (induction us arbitrary: t)
  case Nil
  then show ?case by simp
next
  case (Cons u us)
  show ?case
  proof (cases "Type_common t u")
    case None
    with Cons.prems show ?thesis by auto
  next
    case (Some v)
    with Cons.prems have "pairwise_common v us = Inl e" by simp
    from Cons.IH [OF this] show ?thesis by auto
  qed
qed

lemma stype_rbind_impl:
  "rbind_impl E c columns new_nrows col_empty new_stype = (columns1, new_stype1, c1) \<Longrightarrow>
     stype c1 = stype c \<and> (new_stype1 = new_stype \<or> (new_stype1 = STR64 \<and> stype c = STR32))"
  by (cases c) (auto simp: SentinelStr_rbind_impl_def split: prod.splits if_splits)

lemma stype_rbind_append:
  assumes cast: "\<And>st col. stype (cast_inplace E st col) = st"
  shows "stype (rbind_append E c columns new_nrows col_empty) = stype c \<or>
         (stype c = STR32 \<and> stype (rbind_append E c columns new_nrows col_empty) = STR64)"
proof -
  obtain columns1 new_stype1 c1 where
    r1: "rbind_impl E c columns new_nrows col_empty VOID = (columns1, new_stype1, c1)"
    by (cases "rbind_impl E c columns new_nrows col_empty VOID") auto
  note s1 = stype_rbind_impl [OF r1]
  show ?thesis
  proof (cases "new_stype1 = VOID")
    case True
    with r1 s1 show ?thesis by (simp add: rbind_append_def)
  next
    case False
    with s1 have n: "new_stype1 = STR64" "stype c = STR32" by auto
    obtain columns2 new_stype2 c2 where
      r2: "rbind_impl E (cast_inplace E new_stype1 c1) columns1 new_nrows col_empty new_stype1
             = (columns2, new_stype2, c2)"
      by (cases "rbind_impl E (cast_inplace E new_stype1 c1) columns1 new_nrows col_empty new_stype1") auto
    from stype_rbind_impl [OF r2] cast n have "stype c2 = STR64" by simp
    with r1 r2 False n show ?thesis by (simp add: rbind_append_def)
  qed
qed

lemma stype_rbind_newcol:
  assumes cast: "\<And>st col. stype (cast_inplace E st col) = st"
  shows "stype (rbind_newcol E this new_stype) = new_stype"
  using cast by (simp add: rbind_newcol_def)

text \<open>
  Claim C5. With a cast that gives a column of the type asked for: the loop of
  \<^verbatim>\<open>Column::rbind\<close> computes the pairwise common type from left to right, starting from
  the type of the column. When a pairing has no common type, the call throws
  \<^verbatim>\<open>TypeConflict\<close> with the type of the appended column and the type accumulated so far,
  which have no common type. Otherwise the call returns a column whose element type is
  the pairwise common type; its storage type is that type too, except that a result of
  type \<^verbatim>\<open>STR32\<close> can come back as \<^verbatim>\<open>STR64\<close> (the retry of the string appender). In the
  lattice of the spec, bool with int32 gives int32, int32 with float64 gives float64,
  and a string with int32 has no common type.
\<close>

theorem rbind_common_type:
  assumes cast: "\<forall>st col. stype (cast_inplace E st col) = st"
  shows "(case pairwise_common (stype this) (map stype columns) of
            Inl e \<Rightarrow> Column_rbind E this columns = Inl e
                   \<and> (\<exists>a b. e = TypeConflict a b \<and> a \<in> set (map stype columns)
                             \<and> Type_common b a = None)
          | Inr t \<Rightarrow> (\<exists>col. Column_rbind E this columns = Inr col
                   \<and> element_type (stype col) = element_type t
                   \<and> (stype col = t \<or> (t = STR32 \<and> stype col = STR64))))
       \<and> Type_common BOOL INT32 = Some INT32
       \<and> Type_common INT32 FLOAT64 = Some FLOAT64
       \<and> Type_common STR32 INT32 = None \<and> Type_common INT32 STR32 = None
       \<and> Type_common STR64 INT32 = None \<and> Type_common INT32 STR64 = None"
proof -
  have samples: "Type_common BOOL INT32 = Some INT32 \<and> Type_common INT32 FLOAT64 = Some FLOAT64
       \<and> Type_common STR32 INT32 = None \<and> Type_common INT32 STR32 = None
       \<and> Type_common STR64 INT32 = None \<and> Type_common INT32 STR64 = None"
    by (simp add: Type_common_def)
  have c: "\<And>st col. stype (cast_inplace E st col) = st" using cast by blast
  have main: "case pairwise_common (stype this) (map stype columns) of
            Inl e \<Rightarrow> Column_rbind E this columns = Inl e
                   \<and> (\<exists>a b. e = TypeConflict a b \<and> a \<in> set (map stype columns)
                             \<and> Type_common b a = None)
          | Inr t \<Rightarrow> (\<exists>col. Column_rbind E this columns = Inr col
                   \<and> element_type (stype col) = element_type t
                   \<and> (stype col = t \<or> (t = STR32 \<and> stype col = STR64)))"
  proof (cases "pairwise_common (stype this) (map stype columns)")
    case (Inl e)
    from pairwise_common_conflict [OF Inl] Inl show ?thesis
      by (simp add: Column_rbind_def common_type_loop_pairwise)
  next
    case (Inr t)
    let ?col = "rbind_append E (rbind_newcol E this t) columns
                  (nrows this + sum_list (map nrows columns)) (stype this = VOID)"
    have r: "Column_rbind E this columns = Inr ?col"
      using Inr by (simp add: Column_rbind_def common_type_loop_pairwise)
    from stype_rbind_append [OF c, of "rbind_newcol E this t"] stype_rbind_newcol [OF c, of this t]
    have s: "stype ?col = t \<or> (t = STR32 \<and> stype ?col = STR64)" by simp
    then have "element_type (stype ?col) = element_type t" by auto
    with r s Inr show ?thesis by simp
  qed
  from main samples show ?thesis by blast
qed

lemma ex_cast_stype: "stype (cast_inplace ex_E st col) = st"
  by (cases col) (auto simp: ex_E_def ex_cast_def ex_na_column_def)

theorem rbind_common_type_witness:
  "\<exists>col. Column_rbind ex_E (SentinelFw_ColumnImpl BOOL 2 [0, 1])
            [ConstNa_ColumnImpl 1, SentinelFw_ColumnImpl INT32 2 [7, 8]] = Inr col
         \<and> stype col = INT32"
proof -
  let ?c0 = "SentinelFw_ColumnImpl BOOL 2 [0, 1] :: int Column"
  let ?cols = "[ConstNa_ColumnImpl 1, SentinelFw_ColumnImpl INT32 2 [7, 8]] :: int Column list"
  have p: "pairwise_common (stype ?c0) (map stype ?cols) = Inr INT32"
    by (simp add: Type_common_def)
  have "\<forall>st col. stype (cast_inplace ex_E st col) = st" by (simp add: ex_cast_stype)
  from rbind_common_type [OF this, of ?c0 ?cols]
  have "case pairwise_common (stype ?c0) (map stype ?cols) of
            Inl e \<Rightarrow> Column_rbind ex_E ?c0 ?cols = Inl e
                   \<and> (\<exists>a b. e = TypeConflict a b \<and> a \<in> set (map stype ?cols)
                             \<and> Type_common b a = None)
          | Inr t \<Rightarrow> (\<exists>col. Column_rbind ex_E ?c0 ?cols = Inr col
                   \<and> element_type (stype col) = element_type t
                   \<and> (stype col = t \<or> (t = STR32 \<and> stype col = STR64)))"
    by blast
  then show ?thesis unfolding p by auto
qed

section \<open>The rows of a frame that does not have the column\<close>

text \<open>
  The fixed-width appender in closed form: the buffer it leaves is the old rows (NAs
  when the column is empty) followed by what each column gives, in order, so a \<^verbatim>\<open>VOID\<close>
  column, which stands for a frame that does not have the column, gives its row count
  of NAs at its own rows; and \<^verbatim>\<open>resptr\<close> ends at \<^verbatim>\<open>new_nrows\<close>, as the closing
  \<^verbatim>\<open>xassert\<close> says.
\<close>

lemma length_fw_rows:
  "fw_ok E st col \<Longrightarrow>
     length (fw_rows E st col) = (if stype col = VOID then nrows col else nrows (fw_cast E st col))"
  by (auto simp: fw_rows_def fw_ok_def)

lemma fw_step_closed:
  assumes ok: "fw_ok E st col"
    and room: "resptr + rtf + length (fw_rows E st col) \<le> length mbuf"
  shows "\<exists>col' mbuf' resptr' rtf'.
      fw_step E st col (mbuf, resptr, rtf) = (col', mbuf', resptr', rtf')
    \<and> length mbuf' = length mbuf
    \<and> resptr' + rtf' = resptr + rtf + length (fw_rows E st col)
    \<and> take resptr' mbuf' @ replicate rtf' (GETNA_fw E st) =
        take resptr mbuf @ replicate rtf (GETNA_fw E st) @ fw_rows E st col"
proof (cases "stype col = VOID")
  case True
  then show ?thesis by (simp add: fw_step_def fw_rows_def replicate_add)
next
  case False
  let ?na = "GETNA_fw E st"
  let ?m1 = "write_buf mbuf resptr (replicate rtf ?na)"
  let ?d = "fw_rows E st col"
  have n1: "length ?d = nrows (fw_cast E st col)"
    using ok False by (simp add: length_fw_rows)
  have d: "?d = take (nrows (fw_cast E st col)) (get_data_readonly (fw_cast E st col))"
    using False by (simp add: fw_rows_def)
  have l1: "length ?m1 = length mbuf"
    using room by (simp add: length_write_buf)
  have t1: "take (resptr + rtf) ?m1 = take resptr mbuf @ replicate rtf ?na"
    using take_write_buf [of resptr mbuf "replicate rtf ?na"] room by simp
  have m1: "(if rtf \<noteq> 0 then ?m1 else mbuf) = ?m1"
    using room by (simp add: write_buf_Nil)
  have l2: "length (write_buf ?m1 (resptr + rtf) ?d) = length mbuf"
    using room l1 by (simp add: length_write_buf)
  have t2: "take (resptr + rtf + length ?d) (write_buf ?m1 (resptr + rtf) ?d) =
      take resptr mbuf @ replicate rtf ?na @ ?d"
    using take_write_buf [of "resptr + rtf" ?m1 ?d] room l1 t1 by simp
  have e: "write_buf ?m1 (resptr + rtf) [] = ?m1"
    using room l1 by (simp add: write_buf_Nil)
  have r0: "resptr \<le> length mbuf" using room by simp
  have c1: "(if stype col \<noteq> st then cast_inplace E st col else col) = fw_cast E st col"
    by (simp add: fw_cast_def)
  have s: "fw_step E st col (mbuf, resptr, rtf) =
      (fw_cast E st col, write_buf ?m1 (resptr + rtf) ?d, resptr + rtf + length ?d, 0)"
  proof (cases "rtf = 0")
    case True
    with False n1 e show ?thesis
      unfolding fw_step_def c1 Let_def
      by (cases "nrows (fw_cast E st col) = 0") (simp_all add: d [symmetric] write_buf_Nil [OF r0])
  next
    case rtf: False
    with False n1 e show ?thesis
      unfolding fw_step_def c1 Let_def
      by (cases "nrows (fw_cast E st col) = 0") (simp_all add: d [symmetric])
  qed
  show ?thesis unfolding s using l2 t2 by simp
qed

lemma fw_loop_closed:
  assumes ok: "\<forall>col \<in> set cs. fw_ok E st col"
    and room: "resptr + rtf + length (concat (map (fw_rows E st) cs)) \<le> length mbuf"
  shows "\<exists>cs' mbuf' resptr' rtf'.
      fw_loop E st cs (mbuf, resptr, rtf) = (cs', mbuf', resptr', rtf')
    \<and> length mbuf' = length mbuf
    \<and> resptr' + rtf' = resptr + rtf + length (concat (map (fw_rows E st) cs))
    \<and> take resptr' mbuf' @ replicate rtf' (GETNA_fw E st) =
        take resptr mbuf @ replicate rtf (GETNA_fw E st) @ concat (map (fw_rows E st) cs)"
  using ok room
proof (induction cs arbitrary: mbuf resptr rtf)
  case Nil
  then show ?case by simp
next
  case (Cons col cs)
  from Cons.prems have ok1: "fw_ok E st col" and oks: "\<forall>c \<in> set cs. fw_ok E st c"
    and room1: "resptr + rtf + length (fw_rows E st col) \<le> length mbuf"
    by simp_all
  from fw_step_closed [OF ok1 room1] obtain col' m1 r1 f1 where
    s: "fw_step E st col (mbuf, resptr, rtf) = (col', m1, r1, f1)"
    and l: "length m1 = length mbuf"
    and p: "r1 + f1 = resptr + rtf + length (fw_rows E st col)"
    and t: "take r1 m1 @ replicate f1 (GETNA_fw E st) =
        take resptr mbuf @ replicate rtf (GETNA_fw E st) @ fw_rows E st col"
    by blast
  have room2: "r1 + f1 + length (concat (map (fw_rows E st) cs)) \<le> length m1"
    using Cons.prems(2) l p by simp
  from Cons.IH [OF oks room2] obtain cs' m2 r2 f2 where
    s2: "fw_loop E st cs (m1, r1, f1) = (cs', m2, r2, f2)"
    and l2: "length m2 = length m1"
    and p2: "r2 + f2 = r1 + f1 + length (concat (map (fw_rows E st) cs))"
    and t2: "take r2 m2 @ replicate f2 (GETNA_fw E st) =
        take r1 m1 @ replicate f1 (GETNA_fw E st) @ concat (map (fw_rows E st) cs)"
    by blast
  have "take r2 m2 @ replicate f2 (GETNA_fw E st) =
      take resptr mbuf @ replicate rtf (GETNA_fw E st) @ concat (map (fw_rows E st) (col # cs))"
    using t2 t by (simp add: append_assoc [symmetric] del: append_assoc)
  with s s2 l l2 p p2 show ?case by simp
qed

lemma fw_rbind_closed:
  assumes len0: "length mbuf0 = nrows0"
    and ok: "\<forall>col \<in> set columns. fw_ok E st col"
    and nn: "new_nrows = nrows0 + length (concat (map (fw_rows E st) columns))"
  shows "\<exists>columns1.
      SentinelFw_rbind_impl E st nrows0 mbuf0 columns new_nrows col_empty =
        (columns1,
         (if col_empty then replicate nrows0 (GETNA_fw E st) else mbuf0)
           @ concat (map (fw_rows E st) columns),
         new_nrows)"
proof -
  let ?na = "GETNA_fw E st"
  let ?m = "resize_buf (uninit E) mbuf0 new_nrows"
  let ?r = "if col_empty then 0 else nrows0"
  let ?f = "if col_empty then nrows0 else 0"
  have room: "?r + ?f + length (concat (map (fw_rows E st) columns)) \<le> length ?m"
    using nn by simp
  from fw_loop_closed [OF ok room] obtain cs' m' r' f' where
    s: "fw_loop E st columns (?m, ?r, ?f) = (cs', m', r', f')"
    and l: "length m' = new_nrows"
    and p: "r' + f' = new_nrows"
    and t: "take r' m' @ replicate f' ?na =
        take ?r ?m @ replicate ?f ?na @ concat (map (fw_rows E st) columns)"
    using nn by auto
  have start: "take ?r ?m @ replicate ?f ?na = (if col_empty then replicate nrows0 ?na else mbuf0)"
    using take_resize_buf [of mbuf0 new_nrows "uninit E"] len0 nn by simp
  have fin: "(if f' \<noteq> 0 then write_buf m' r' (replicate f' ?na) else m') =
      take r' m' @ replicate f' ?na"
    using l p by (auto simp: write_buf_def)
  have s0: "(if col_empty then (?m, 0, nrows0) else (?m, nrows0, 0)) = (?m, ?r, ?f)"
    by simp
  show ?thesis
    unfolding SentinelFw_rbind_impl_def Let_def s0 s
    using fin t start p by (auto simp: append_assoc [symmetric] simp del: append_assoc)
qed

text \<open>
  The frame \<open>ex_T\<close> of one row and one column \<open>A\<close> takes \<open>ex_S1\<close> (one row, column \<open>A\<close>)
  and a frame of two rows that has a second column. With \<^verbatim>\<open>force\<close>, the second column
  is new in the frame: \<^verbatim>\<open>DataTable::rbind\<close> adds it as a \<^verbatim>\<open>VOID\<close> column of one row, and
  \<open>ex_S1\<close> gives it a \<^verbatim>\<open>VOID\<close> column of one row (the entry \<^verbatim>\<open>INVALID_INDEX\<close> of the
  matrix).
\<close>

lemma ex_obj_args: "process_varargs [PyFrame ex_S1, PyFrame ex_S2] = Inr [ex_S1, ex_S2]"
  by (simp add: process_varargs_def ex_S1_def ex_S2_def)

lemma ex_obj_plan:
  "planner True True ex_T [ex_S1, ex_S2] = Inr ([''A'', ''O''], [[0, 0], [INVALID_INDEX, 1]])"
  by (simp add: planner_def plan_init_def Let_def set_col_def ex_T_def ex_S1_def ex_S2_def)

lemma ex_fw_args: "process_varargs [PyFrame ex_S1, PyFrame ex_S2i] = Inr [ex_S1, ex_S2i]"
  by (simp add: process_varargs_def ex_S1_def ex_S2i_def)

lemma ex_fw_plan:
  "planner True True ex_T [ex_S1, ex_S2i] = Inr ([''A'', ''O''], [[0, 0], [INVALID_INDEX, 1]])"
  by (simp add: planner_def plan_init_def Let_def set_col_def ex_T_def ex_S1_def ex_S2i_def)

lemma ex_col_A:
  "Column_rbind ex_E (SentinelFw_ColumnImpl INT32 1 [1])
     [SentinelFw_ColumnImpl INT32 1 [2], SentinelFw_ColumnImpl INT32 2 [3, 4]]
   = Inr (SentinelFw_ColumnImpl INT32 4 [1, 2, 3, 4])"
  by (simp add: Column_rbind_def Type_common_def rbind_newcol_def rbind_append_def
      SentinelFw_rbind_impl_def fw_step_def resize_buf_def write_buf_def Let_def ex_E_def
      eval_nat_numeral)

text \<open>
  The new column, of objects and of type int32. The fixed-width appender starts with
  \<^verbatim>\<open>rows_to_fill = old_nrows\<close> and writes the NAs of the old row and of \<open>ex_S1\<close> before
  the data; the object appender starts to write at row 0.
\<close>

lemma ex_col_obj:
  "Column_rbind ex_E (ConstNa_ColumnImpl 1)
     [ConstNa_ColumnImpl 1, SentinelObj_ColumnImpl 2 [7, 8]]
   = Inr (SentinelObj_ColumnImpl 4 [- 1, 7, 8, - 1])"
  by (simp add: Column_rbind_def Type_common_def rbind_newcol_def rbind_append_def
      SentinelObj_rbind_impl_def obj_step_def get_element_obj_def
      resize_buf_def write_buf_def Let_def ex_E_def ex_cast_def eval_nat_numeral)

lemma ex_col_fw:
  "Column_rbind ex_E (ConstNa_ColumnImpl 1)
     [ConstNa_ColumnImpl 1, SentinelFw_ColumnImpl INT32 2 [7, 8]]
   = Inr (SentinelFw_ColumnImpl INT32 4 [- 128, - 128, 7, 8])"
  by (simp add: Column_rbind_def Type_common_def rbind_newcol_def rbind_append_def
      SentinelFw_rbind_impl_def fw_step_def
      resize_buf_def write_buf_def Let_def ex_E_def ex_cast_def eval_nat_numeral)

text \<open>
  The closing \<^verbatim>\<open>xassert(dest_data == dest_data0 + new_nrows)\<close> of the object appender:
  on this input \<^verbatim>\<open>dest_data\<close> ends at 3, and \<^verbatim>\<open>new_nrows\<close> is 4.
\<close>

lemma ex_obj_dest_data:
  "SentinelObj_rbind_impl ex_E 1 [- 1]
     [ConstNa_ColumnImpl 1, SentinelObj_ColumnImpl 2 [7, 8]] 4 True
   = ([ConstNa_ColumnImpl 1, SentinelObj_ColumnImpl 2 [7, 8]], [- 1, 7, 8, - 1], 3)"
  by (simp add: SentinelObj_rbind_impl_def obj_step_def get_element_obj_def
      resize_buf_def write_buf_def Let_def ex_E_def ex_cast_def eval_nat_numeral)

lemma ex_table:
  assumes S: "dt_nrows S = 2" "dt_columns S = [SentinelFw_ColumnImpl INT32 2 [3, 4], c]"
    and c: "Column_rbind ex_E (ConstNa_ColumnImpl 1) [ConstNa_ColumnImpl 1, c] = Inr c'"
  shows "DataTable_rbind ex_E ex_T [ex_S1, S] [[0, 0], [INVALID_INDEX, 1]] =
   (None, \<lparr>dt_nrows = 4, dt_ncols = 2, dt_nkeys = 0,
     dt_columns = [SentinelFw_ColumnImpl INT32 4 [1, 2, 3, 4], c'],
     dt_names = [''A'']\<rparr>)"
proof -
  let ?M = "[[0, 0], [INVALID_INDEX, 1 :: nat]]"
  let ?A = "SentinelFw_ColumnImpl INT32 1 [1 :: int]"
  let ?A' = "SentinelFw_ColumnImpl INT32 4 [1, 2, 3, 4 :: int]"
  let ?C = "[?A, ConstNa_ColumnImpl 1]"
  have c0: "cols_to_append [ex_S1, S] (?M ! 0) =
      [SentinelFw_ColumnImpl INT32 1 [2], SentinelFw_ColumnImpl INT32 2 [3, 4]]"
    by (simp add: cols_to_append_def INVALID_INDEX_def ex_S1_def S)
  have c1: "cols_to_append [ex_S1, S] (?M ! 1) = [ConstNa_ColumnImpl 1, c]"
    by (simp add: cols_to_append_def INVALID_INDEX_def ex_S1_def S)
  have r0: "Column_rbind ex_E (?C ! 0)
      [SentinelFw_ColumnImpl INT32 1 [2], SentinelFw_ColumnImpl INT32 2 [3, 4]] = Inr ?A'"
    using ex_col_A by simp
  have r1: "Column_rbind ex_E ((?C[0 := ?A']) ! 1) [ConstNa_ColumnImpl 1, c] = Inr c'"
    using c by simp
  have u: "(?C[0 := ?A'])[1 := c'] = [?A', c']" by simp
  have cols: "rbind_columns ex_E [ex_S1, S] ?M [0, 1] ?C = (None, [?A', c'])"
    by (simp only: rbind_columns.simps c0 c1 r0 r1 sum.case u)
  have l: "[0 ..< length ?M] = [0, 1]" by (simp add: upt_rec)
  have i: "dt_columns ex_T @ replicate (length ?M - dt_ncols ex_T)
      (ConstNa_ColumnImpl (dt_nrows ex_T)) = ?C"
    by (simp add: ex_T_def)
  have n: "foldl (\<lambda>k d. k + dt_nrows d) (dt_nrows ex_T) [ex_S1, S] = 4"
    by (simp add: ex_T_def ex_S1_def S)
  have "DataTable_rbind ex_E ex_T [ex_S1, S] ?M =
      (None, ex_T\<lparr>dt_columns := [?A', c'], dt_ncols := length ?M, dt_nrows := 4\<rparr>)"
    unfolding DataTable_rbind_def Let_def l i n cols by simp
  then show ?thesis by (simp add: ex_T_def)
qed

text \<open>
  The same call with a new column of type int32, for any arguments that give the two
  frames: NA, NA, 7, 8.
\<close>

lemma ex_fw_frame:
  assumes "process_varargs args = Inr [ex_S1, ex_S2i]"
  shows "Frame_rbind ex_E ex_T args True True =
   (None, \<lparr>dt_nrows = 4, dt_ncols = 2, dt_nkeys = 0,
     dt_columns = [SentinelFw_ColumnImpl INT32 4 [1, 2, 3, 4],
                   SentinelFw_ColumnImpl INT32 4 [- 128, - 128, 7, 8]],
     dt_names = [''A'', ''O'']\<rparr>)"
proof -
  have "[ex_S1, ex_S2i] \<noteq> []" "dt_nkeys ex_T = 0" by (simp_all add: ex_T_def)
  moreover have "DataTable_rbind ex_E ex_T [ex_S1, ex_S2i] [[0, 0], [INVALID_INDEX, 1]] =
     (None, \<lparr>dt_nrows = 4, dt_ncols = 2, dt_nkeys = 0,
       dt_columns = [SentinelFw_ColumnImpl INT32 4 [1, 2, 3, 4],
                     SentinelFw_ColumnImpl INT32 4 [- 128, - 128, 7, 8]],
       dt_names = [''A'']\<rparr>)"
    by (rule ex_table [OF _ _ ex_col_fw]) (simp_all add: ex_S2i_def)
  ultimately show ?thesis
    by (simp add: Frame_rbind_def assms ex_fw_plan)
qed

lemma fw_na_rows_placed:
  "Frame_rbind ex_E ex_T [PyFrame ex_S1, PyFrame ex_S2i] True True =
   (None, \<lparr>dt_nrows = 4, dt_ncols = 2, dt_nkeys = 0,
     dt_columns = [SentinelFw_ColumnImpl INT32 4 [1, 2, 3, 4],
                   SentinelFw_ColumnImpl INT32 4 [- 128, - 128, 7, 8]],
     dt_names = [''A'', ''O'']\<rparr>)"
  by (rule ex_fw_frame [OF ex_fw_args])

text \<open>
  Claim C4. A frame that does not have a final column gives that column as many missing
  values as the frame has rows, at the rows of that frame. The appender of object
  columns does not do so for a column that is new in a frame with rows: \<open>ex_S1\<close> has
  the second row of the result and no column \<open>O\<close>, and the rows of \<open>O\<close> are
  \<^verbatim>\<open>None\<close>, 7, 8, \<^verbatim>\<open>None\<close> (\<open>- 1\<close> stands for \<^verbatim>\<open>None\<close>): the row of \<open>ex_S1\<close> holds the
  first object of \<open>ex_S2\<close>, where the property asks for \<^verbatim>\<open>None\<close>, \<^verbatim>\<open>None\<close>, 7, 8.
\<close>

theorem obj_na_rows_misplaced:
  "Frame_rbind ex_E ex_T [PyFrame ex_S1, PyFrame ex_S2] True True =
   (None, \<lparr>dt_nrows = 4, dt_ncols = 2, dt_nkeys = 0,
     dt_columns = [SentinelFw_ColumnImpl INT32 4 [1, 2, 3, 4],
                   SentinelObj_ColumnImpl 4 [- 1, 7, 8, - 1]],
     dt_names = [''A'', ''O'']\<rparr>)"
proof -
  have "[ex_S1, ex_S2] \<noteq> []" "dt_nkeys ex_T = 0" by (simp_all add: ex_T_def)
  moreover have "DataTable_rbind ex_E ex_T [ex_S1, ex_S2] [[0, 0], [INVALID_INDEX, 1]] =
     (None, \<lparr>dt_nrows = 4, dt_ncols = 2, dt_nkeys = 0,
       dt_columns = [SentinelFw_ColumnImpl INT32 4 [1, 2, 3, 4],
                     SentinelObj_ColumnImpl 4 [- 1, 7, 8, - 1]],
       dt_names = [''A'']\<rparr>)"
    by (rule ex_table [OF _ _ ex_col_obj]) (simp_all add: ex_S2_def)
  ultimately show ?thesis
    by (simp add: Frame_rbind_def ex_obj_args ex_obj_plan)
qed

section \<open>The row count\<close>

text \<open>
  \<^verbatim>\<open>Column::rbind\<close>: the row count of the column that it leaves is the row count of the
  column plus the row counts of the columns appended, for every appender; after the
  early return of the 32-bit string appender the second call sets it.
\<close>

lemma nrows_rbind_impl:
  "rbind_impl E c columns new_nrows col_empty new_stype = (columns1, new_stype1, c1) \<Longrightarrow>
     nrows c1 = new_nrows \<or> (stype c = STR32 \<and> new_stype1 = STR64 \<and> c1 = c)"
  by (cases c)
     (auto simp: SentinelStr_rbind_impl_def str_append_def ConstNa_rbind_impl_def Let_def
           split: prod.splits if_splits)

lemma nrows_rbind_append:
  assumes cast: "\<And>st col. stype (cast_inplace E st col) = st"
  shows "nrows (rbind_append E c columns new_nrows col_empty) = new_nrows"
proof -
  obtain columns1 new_stype1 c1 where
    r1: "rbind_impl E c columns new_nrows col_empty VOID = (columns1, new_stype1, c1)"
    by (cases "rbind_impl E c columns new_nrows col_empty VOID") auto
  note s1 = stype_rbind_impl [OF r1] and n1 = nrows_rbind_impl [OF r1]
  show ?thesis
  proof (cases "new_stype1 = VOID")
    case True
    with r1 n1 show ?thesis by (simp add: rbind_append_def)
  next
    case False
    with s1 have n: "new_stype1 = STR64" by auto
    obtain columns2 new_stype2 c2 where
      r2: "rbind_impl E (cast_inplace E new_stype1 c1) columns1 new_nrows col_empty new_stype1
             = (columns2, new_stype2, c2)"
      by (cases "rbind_impl E (cast_inplace E new_stype1 c1) columns1 new_nrows col_empty new_stype1") auto
    from nrows_rbind_impl [OF r2] cast n have "nrows c2 = new_nrows" by simp
    with r1 r2 False show ?thesis by (simp add: rbind_append_def)
  qed
qed

lemma Column_rbind_nrows:
  assumes cast: "\<And>st col. stype (cast_inplace E st col) = st"
    and r: "Column_rbind E this columns = Inr c"
  shows "nrows c = nrows this + sum_list (map nrows columns)"
  using r
  by (auto simp: Column_rbind_def Let_def common_type_loop_pairwise nrows_rbind_append [OF cast]
           split: sum.splits)

text \<open>\<^verbatim>\<open>DataTable::rbind\<close>: \<^verbatim>\<open>new_nrows\<close> starts from \<^verbatim>\<open>nrows_\<close> and adds \<^verbatim>\<open>dt->nrows()\<close>.\<close>

lemma foldl_nrows:
  "foldl (\<lambda>n d. n + dt_nrows d) k dts = k + sum_list (map dt_nrows dts)"
  by (induction dts arbitrary: k) simp_all

lemma DataTable_rbind_nrows:
  assumes "DataTable_rbind E dt dts col_indices = (None, dt1)"
  shows "dt_nrows dt1 = dt_nrows dt + sum_list (map dt_nrows dts)"
  using assms
  by (auto simp: DataTable_rbind_def Let_def foldl_nrows split: prod.splits option.splits)

text \<open>
  Claim C1. When \<^verbatim>\<open>Frame::rbind\<close> returns without an error, the row count of the frame
  is its row count before the call plus the sum of the row counts of the frames among
  the arguments that have rows (the frames without rows are dropped by
  \<^verbatim>\<open>process_arg\<close>).
\<close>

theorem rbind_row_count:
  assumes ok: "Frame_rbind E dt args force bynames = (None, dt')"
  shows "dt_nrows dt' =
     dt_nrows dt + sum_list (map dt_nrows (filter has_rows (concat (map frames_of args))))"
proof (cases "process_varargs args")
  case (Inl e)
  with ok show ?thesis by (simp add: Frame_rbind_def)
next
  case (Inr dts)
  note d = process_varargs_frames [OF Inr]
  show ?thesis
  proof (cases "dts = []")
    case True
    with ok Inr have "dt' = dt" by (simp add: Frame_rbind_def)
    with True d show ?thesis by simp
  next
    case False
    with ok Inr have k: "\<not> dt_nkeys dt > 0"
      by (auto simp: Frame_rbind_def split: if_splits)
    from ok Inr False k obtain final_names1 cols1 dt1 where
      "DataTable_rbind E dt dts cols1 = (None, dt1)" "dt' = dt1\<lparr>dt_names := final_names1\<rparr>"
      by (auto simp: Frame_rbind_def split: sum.splits prod.splits option.splits)
    with DataTable_rbind_nrows [of E dt dts cols1 dt1] d show ?thesis by simp
  qed
qed

lemma ex_rows_args:
  "process_varargs [PyFrame ex_S1, PyIter [PyFrame ex_DT0, PyFrame ex_S2i]] = Inr [ex_S1, ex_S2i]"
  by (simp add: process_varargs_def ex_S1_def ex_S2i_def ex_DT0_def)

theorem rbind_row_count_witness:
  "Frame_rbind ex_E ex_T [PyFrame ex_S1, PyIter [PyFrame ex_DT0, PyFrame ex_S2i]] True True =
     (None, \<lparr>dt_nrows = 4, dt_ncols = 2, dt_nkeys = 0,
       dt_columns = [SentinelFw_ColumnImpl INT32 4 [1, 2, 3, 4],
                     SentinelFw_ColumnImpl INT32 4 [- 128, - 128, 7, 8]],
       dt_names = [''A'', ''O'']\<rparr>)
   \<and> (4 :: nat) = dt_nrows ex_T + sum_list (map dt_nrows (filter has_rows
         (concat (map frames_of [PyFrame ex_S1, PyIter [PyFrame ex_DT0, PyFrame ex_S2i]]))))
   \<and> filter has_rows
         (concat (map frames_of [PyFrame ex_S1, PyIter [PyFrame ex_DT0, PyFrame ex_S2i]]))
       = [ex_S1, ex_S2i]"
proof -
  note r = ex_fw_frame [OF ex_rows_args]
  from rbind_row_count [OF r] have
    "(4 :: nat) = dt_nrows ex_T + sum_list (map dt_nrows (filter has_rows
         (concat (map frames_of [PyFrame ex_S1, PyIter [PyFrame ex_DT0, PyFrame ex_S2i]]))))"
    by simp
  moreover have "filter has_rows
         (concat (map frames_of [PyFrame ex_S1, PyIter [PyFrame ex_DT0, PyFrame ex_S2i]]))
       = [ex_S1, ex_S2i]"
    by (simp add: has_rows_def ex_S1_def ex_S2i_def ex_DT0_def)
  ultimately show ?thesis using r by blast
qed

end
